theory Spec2Isabelle
  imports Complex_Main
begin

section \<open>The particle field of sketch-03 and of its MIDI variant\<close>

text \<open>
  The repository holds two canvas-sketch programs: \<^verbatim>\<open>sketch-03.js\<close>, where every
  point lives \<^verbatim>\<open>POINT_LIFESPAN\<close> seconds, and a second file (here: the MIDI variant)
  where every point draws its own lifespan and a Web MIDI output receives a note-on when a
  point is created and a note-off when it is removed.

  JavaScript numbers are modelled as the real numbers they approximate: \<open>+\<close>, \<open>*\<close>, \<open>/\<close>,
  \<open>sqrt\<close> and \<open>sin\<close> are exact here, which IEEE doubles are not. One place where this
  shows: \<open>n\<close> steps of \<open>1 / 60\<close> add up to \<open>n / 60\<close> here, while the doubles of the
  program fall short of it by a rounding error, so that an age which meets a lifespan exactly
  here (60 after 3600 frames, 120 after 7200) does so one frame later there. The statements
  below about whole runs are therefore made at frames where no age comes that near to a
  lifespan, and the others hold for every field. The canvas is modelled
  as the list of drawing operations it has received, the MIDI output as the list of messages
  it has been sent, and the random generator as the sequence of numbers that successive calls
  of \<^verbatim>\<open>random.value()\<close> return, read at a position that the state carries.
\<close>

subsection \<open>Vectors and points\<close>

record vector =
  coord_x :: real
  coord_y :: real

definition Vector :: "real \<Rightarrow> real \<Rightarrow> vector" where
  "Vector a b = \<lparr>coord_x = a, coord_y = b\<rparr>"

definition getDistance :: "vector \<Rightarrow> vector \<Rightarrow> real" where
  "getDistance u v =
     (let dx = coord_x u - coord_x v;
          dy = coord_y u - coord_y v
      in sqrt (dx * dx + dy * dy))"

definition add :: "vector \<Rightarrow> vector \<Rightarrow> vector" where
  "add u v = Vector (coord_x u + coord_x v) (coord_y u + coord_y v)"

text \<open>The fields both Point classes share; each variant extends them.\<close>

record point =
  pos :: vector
  vel :: vector
  radius :: real
  age :: real

record point_03 = point +
  acc :: vector

record point_midi = point +
  lifespan :: real

subsection \<open>The canvas, the MIDI output and the field\<close>

datatype draw =
    FillRect string real real real real
  | Stroke real real vector vector
  | Circle real vector real

text \<open>
  \<open>Stroke alpha lineWidth p q\<close> is the white line from \<open>p\<close> to \<open>q\<close> with that opacity and
  width; \<open>Circle alpha c r\<close> the white disc of radius \<open>r\<close> at \<open>c\<close> with that opacity.
\<close>

record 'p field =
  points :: "'p list"
  seed :: nat
  canvas :: "draw list"

record 'p field_midi = "'p field" +
  sent :: "int list list"

subsection \<open>Settings and constants\<close>

definition fps :: real where "fps = 60"

definition INITIAL_POINTS :: nat where "INITIAL_POINTS = 200"
definition THOUGHTS_PER_SECOND :: real where "THOUGHTS_PER_SECOND = 0.8"
definition POINT_LIFESPAN :: real where "POINT_LIFESPAN = 120"
definition MIN_ACTIVE_POINTS :: nat where "MIN_ACTIVE_POINTS = 150"

definition INITIAL_POINTS_midi :: nat where "INITIAL_POINTS_midi = 300"
definition THOUGHTS_PER_SECOND_midi :: real where "THOUGHTS_PER_SECOND_midi = 0.5"
definition POINT_LIFESPAN_MIN :: real where "POINT_LIFESPAN_MIN = 60"
definition POINT_LIFESPAN_MAX :: real where "POINT_LIFESPAN_MAX = 180"

definition NOTE_MIN :: real where "NOTE_MIN = 36"
definition NOTE_MAX :: real where "NOTE_MAX = 72"
definition VELOCITY_MIN :: real where "VELOCITY_MIN = 40"
definition VELOCITY_MAX :: real where "VELOCITY_MAX = 100"

subsection \<open>Library functions\<close>

text \<open>
  Modelled from the spec: \<^verbatim>\<open>math.mapRange\<close> of canvas-sketch-util, which is not among
  the sources. The spec calls it a linear interpolation from an input interval to an output
  interval (\<open>lerp(sin(t * 0.5), [-1,1] \<rightarrow> [100,150])\<close>, "falls off linearly").
\<close>

definition math_mapRange :: "real \<Rightarrow> real \<Rightarrow> real \<Rightarrow> real \<Rightarrow> real \<Rightarrow> real" where
  "math_mapRange v inputMin inputMax outputMin outputMax =
     (v - inputMin) / (inputMax - inputMin) * (outputMax - outputMin) + outputMin"

text \<open>
  Modelled from the spec: \<^verbatim>\<open>math.clamp\<close> of canvas-sketch-util, the "velocity clamping"
  of the spec, for a lower bound below the upper one.
\<close>

definition math_clamp :: "real \<Rightarrow> real \<Rightarrow> real \<Rightarrow> real" where
  "math_clamp v lo hi = (if v < lo then lo else if v > hi then hi else v)"

text \<open>
  Modelled from the spec: \<^verbatim>\<open>random.range\<close> of canvas-sketch-util, the spec's "uniform
  range sampling"; \<open>u\<close> is the number in \<open>[0, 1)\<close> that the generator returns for the call.
\<close>

definition random_range :: "real \<Rightarrow> real \<Rightarrow> real \<Rightarrow> real" where
  "random_range u lo hi = u * (hi - lo) + lo"

text \<open>
  Modelled from the spec: \<^verbatim>\<open>random.chance\<close> of canvas-sketch-util, the spec's "Bernoulli
  trial sampling (probability per call)"; \<open>u\<close> as before.
\<close>

definition random_chance :: "real \<Rightarrow> real \<Rightarrow> bool" where
  "random_chance u p \<longleftrightarrow> u < p"

text \<open>\<^verbatim>\<open>Math.round\<close> is \<open>\<lfloor>x + 1/2\<rfloor>\<close>, which is \<^const>\<open>round\<close>.\<close>

definition mapRange :: "real \<Rightarrow> real \<Rightarrow> real \<Rightarrow> real \<Rightarrow> real \<Rightarrow> int" where
  "mapRange v inMin inMax outMin outMax =
     round ((v - inMin) * (outMax - outMin) / (inMax - inMin) + outMin)"

text \<open>\<^verbatim>\<open>xs.splice(start, count)\<close>, for \<open>start\<close> within the array.\<close>

definition splice_js :: "nat \<Rightarrow> nat \<Rightarrow> 'a list \<Rightarrow> 'a list" where
  "splice_js start count xs = take start xs @ drop (start + count) xs"

subsection \<open>\<^verbatim>\<open>Array.prototype.forEach\<close> over the points\<close>

text \<open>
  \<^verbatim>\<open>forEach\<close> reads the length once, then visits the indices \<open>0, 1, \<dots>\<close> below it and
  calls the callback at each index the array still has, with the element found there at
  that moment. The callback may change the array.
\<close>

function forEach_loop ::
  "('p \<Rightarrow> nat \<Rightarrow> ('p, 'm) field_scheme \<Rightarrow> ('p, 'm) field_scheme) \<Rightarrow> nat \<Rightarrow> nat \<Rightarrow>
   ('p, 'm) field_scheme \<Rightarrow> ('p, 'm) field_scheme" where
  "forEach_loop f len k s =
     (if k < len
      then forEach_loop f len (Suc k)
             (if k < length (points s) then f (points s ! k) k s else s)
      else s)"
  by pat_completeness auto
termination
  by (relation "measure (\<lambda>(f, len, k, s). len - k)") auto

declare forEach_loop.simps [simp del]

definition forEach ::
  "('p \<Rightarrow> nat \<Rightarrow> ('p, 'm) field_scheme \<Rightarrow> ('p, 'm) field_scheme) \<Rightarrow>
   ('p, 'm) field_scheme \<Rightarrow> ('p, 'm) field_scheme" where
  "forEach f s = forEach_loop f (length (points s)) 0 s"

subsection \<open>Connections between points (both files)\<close>

definition dynamicThreshold :: "real \<Rightarrow> real" where
  "dynamicThreshold time = math_mapRange (sin (time * 0.5)) (- 1) 1 100 150"

definition connection :: "'a point_scheme \<Rightarrow> 'a point_scheme \<Rightarrow> real \<Rightarrow> draw option" where
  "connection p1 p2 threshold =
     (let dist = getDistance (pos p1) (pos p2)
      in if dist > threshold then None
         else Some (Stroke (math_mapRange dist 0 threshold 0.6 0)
                           (math_mapRange dist 0 threshold 1.5 0.5) (pos p1) (pos p2)))"

definition connections :: "'a point_scheme list \<Rightarrow> real \<Rightarrow> draw list" where
  "connections ps threshold =
     concat (map (\<lambda>i. concat (map (\<lambda>j. case connection (ps ! i) (ps ! j) threshold of
                                           None \<Rightarrow> [] | Some l \<Rightarrow> [l])
                                   [i + 1 ..< length ps]))
                 [0 ..< length ps])"

subsection \<open>sketch-03.js\<close>

definition new_Point :: "(nat \<Rightarrow> real) \<Rightarrow> nat \<Rightarrow> real \<Rightarrow> real \<Rightarrow> point_03" where
  "new_Point rnd n a b =
     \<lparr>pos = Vector a b,
      vel = Vector (random_range (rnd n) (- 0.2) 0.2) (random_range (rnd (n + 1)) (- 0.2) 0.2),
      radius = 3, age = 0, acc = Vector 0 0\<rparr>"

text \<open>
  The three lines \<^verbatim>\<open>x = random.range(0, width); y = random.range(0, height);
  points.push(new Point(x, y))\<close>, which the file has three times.
\<close>

definition push_Point :: "(nat \<Rightarrow> real) \<Rightarrow> real \<Rightarrow> real \<Rightarrow> point_03 field \<Rightarrow> point_03 field" where
  "push_Point rnd width height s =
     (let n = seed s;
          a = random_range (rnd n) 0 width;
          b = random_range (rnd (n + 1)) 0 height
      in s\<lparr>points := points s @ [new_Point rnd (n + 2) a b], seed := n + 4\<rparr>)"

fun initial_points :: "(nat \<Rightarrow> real) \<Rightarrow> real \<Rightarrow> real \<Rightarrow> nat \<Rightarrow> point_03 field \<Rightarrow> point_03 field" where
  "initial_points rnd width height 0 s = s"
| "initial_points rnd width height (Suc i) s =
     initial_points rnd width height i (push_Point rnd width height s)"

definition sketch :: "(nat \<Rightarrow> real) \<Rightarrow> real \<Rightarrow> real \<Rightarrow> point_03 field" where
  "sketch rnd width height =
     initial_points rnd width height INITIAL_POINTS \<lparr>points = [], seed = 0, canvas = []\<rparr>"

function top_up :: "(nat \<Rightarrow> real) \<Rightarrow> real \<Rightarrow> real \<Rightarrow> point_03 field \<Rightarrow> point_03 field" where
  "top_up rnd width height s =
     (if length (points s) < MIN_ACTIVE_POINTS
      then top_up rnd width height (push_Point rnd width height s)
      else s)"
  by pat_completeness auto
termination
  by (relation "measure (\<lambda>(rnd, width, height, s). MIN_ACTIVE_POINTS - length (points s))")
     (auto simp: push_Point_def Let_def)

declare top_up.simps [simp del]

definition applyBoundaries :: "point_03 \<Rightarrow> real \<Rightarrow> real \<Rightarrow> point_03" where
  "applyBoundaries p width height =
     (let margin = 100;
          p = (if coord_x (pos p) < margin then p\<lparr>vel := (vel p)\<lparr>coord_x := coord_x (vel p) + 0.01\<rparr>\<rparr> else p);
          p = (if coord_x (pos p) > width - margin then p\<lparr>vel := (vel p)\<lparr>coord_x := coord_x (vel p) - 0.01\<rparr>\<rparr> else p);
          p = (if coord_y (pos p) < margin then p\<lparr>vel := (vel p)\<lparr>coord_y := coord_y (vel p) + 0.01\<rparr>\<rparr> else p);
          p = (if coord_y (pos p) > height - margin then p\<lparr>vel := (vel p)\<lparr>coord_y := coord_y (vel p) - 0.01\<rparr>\<rparr> else p)
      in p)"

text \<open>The wrap-around at the edges, the same four lines in both files.\<close>

definition wrap :: "'a point_scheme \<Rightarrow> real \<Rightarrow> real \<Rightarrow> 'a point_scheme" where
  "wrap p width height =
     (let p = (if coord_x (pos p) < 0 then p\<lparr>pos := (pos p)\<lparr>coord_x := width\<rparr>\<rparr> else p);
          p = (if coord_x (pos p) > width then p\<lparr>pos := (pos p)\<lparr>coord_x := 0\<rparr>\<rparr> else p);
          p = (if coord_y (pos p) < 0 then p\<lparr>pos := (pos p)\<lparr>coord_y := height\<rparr>\<rparr> else p);
          p = (if coord_y (pos p) > height then p\<lparr>pos := (pos p)\<lparr>coord_y := 0\<rparr>\<rparr> else p)
      in p)"

text \<open>\<open>update\<close> draws two random numbers, at the positions \<open>n\<close> and \<open>n + 1\<close>.\<close>

definition update :: "(nat \<Rightarrow> real) \<Rightarrow> nat \<Rightarrow> point_03 \<Rightarrow> real \<Rightarrow> real \<Rightarrow> real \<Rightarrow> point_03" where
  "update rnd n p width height time =
     (let p = applyBoundaries p width height;
          p = p\<lparr>vel := (vel p)\<lparr>coord_x := coord_x (vel p) + sin (time * 0.2 + coord_y (pos p) * 0.5) * 0.02\<rparr>\<rparr>;
          p = p\<lparr>vel := (vel p)\<lparr>coord_y := coord_y (vel p) + cos (time * 0.2 + coord_x (pos p) * 0.5) * 0.02\<rparr>\<rparr>;
          p = p\<lparr>vel := (vel p)\<lparr>coord_x := coord_x (vel p) + random_range (rnd n) (- 0.005) 0.005\<rparr>\<rparr>;
          p = p\<lparr>vel := (vel p)\<lparr>coord_y := coord_y (vel p) + random_range (rnd (n + 1)) (- 0.005) 0.005\<rparr>\<rparr>;
          p = p\<lparr>pos := add (pos p) (vel p)\<rparr>;
          speedLimit = 0.4;
          p = p\<lparr>vel := (vel p)\<lparr>coord_x := math_clamp (coord_x (vel p)) (- speedLimit) speedLimit\<rparr>\<rparr>;
          p = p\<lparr>vel := (vel p)\<lparr>coord_y := math_clamp (coord_y (vel p)) (- speedLimit) speedLimit\<rparr>\<rparr>
      in wrap p width height)"

definition draw_point :: "point_03 \<Rightarrow> draw" where
  "draw_point p = Circle (math_mapRange (age p) 0 POINT_LIFESPAN 1 0) (pos p) (radius p)"

text \<open>
  The callback of \<^verbatim>\<open>points.forEach\<close>. The point is an object of the array, so what
  the callback does to it is done to the element at \<open>index\<close>.
\<close>

definition callback ::
  "(nat \<Rightarrow> real) \<Rightarrow> real \<Rightarrow> real \<Rightarrow> real \<Rightarrow> point_03 \<Rightarrow> nat \<Rightarrow> point_03 field \<Rightarrow> point_03 field" where
  "callback rnd width height time p index s =
     (let p = update rnd (seed s) p width height time;
          s = s\<lparr>seed := seed s + 2\<rparr>;
          s = s\<lparr>canvas := canvas s @ [draw_point p]\<rparr>;
          p = p\<lparr>age := age p + 1 / fps\<rparr>;
          s = s\<lparr>points := (points s)[index := p]\<rparr>
      in if age p \<ge> POINT_LIFESPAN
         then s\<lparr>points := splice_js index 1 (points s)\<rparr>
         else s)"

text \<open>
  The render function, in two parts: \<open>spawn_and_connect\<close> is everything before
  \<^verbatim>\<open>points.forEach\<close> (the background, the top-up, the occasional new point, the
  connections), \<open>render\<close> the whole function.
\<close>

definition spawn_and_connect ::
  "(nat \<Rightarrow> real) \<Rightarrow> real \<Rightarrow> real \<Rightarrow> real \<Rightarrow> point_03 field \<Rightarrow> point_03 field" where
  "spawn_and_connect rnd width height time s =
     (let s = s\<lparr>canvas := canvas s @ [FillRect ''rgba(1, 1, 1, 0.1)'' 0 0 width height]\<rparr>;
          s = top_up rnd width height s;
          u = rnd (seed s);
          s = s\<lparr>seed := seed s + 1\<rparr>;
          s = (if random_chance u (THOUGHTS_PER_SECOND / 60) then push_Point rnd width height s else s)
      in s\<lparr>canvas := canvas s @ connections (points s) (dynamicThreshold time)\<rparr>)"

definition render :: "(nat \<Rightarrow> real) \<Rightarrow> real \<Rightarrow> real \<Rightarrow> real \<Rightarrow> point_03 field \<Rightarrow> point_03 field" where
  "render rnd width height time s =
     forEach (callback rnd width height time) (spawn_and_connect rnd width height time s)"

text \<open>\<open>frames n\<close> renders the first \<open>n\<close> frames, frame \<open>i\<close> at the time \<open>time i\<close>.\<close>

fun frames ::
  "(nat \<Rightarrow> real) \<Rightarrow> real \<Rightarrow> real \<Rightarrow> (nat \<Rightarrow> real) \<Rightarrow> nat \<Rightarrow> point_03 field \<Rightarrow> point_03 field" where
  "frames rnd width height time 0 s = s"
| "frames rnd width height time (Suc n) s =
     render rnd width height (time n) (frames rnd width height time n s)"

text \<open>
  The pass over the points in closed form. \<open>aged\<close> is the point as one call of the callback
  leaves it, \<open>sweep\<close> the array as the whole \<^verbatim>\<open>forEach\<close> leaves it, by recursion on
  the list: when the callback removes a point, the next one moves to the index just visited
  and the loop goes on behind it. That the loop computes \<open>sweep\<close> is proved below.
\<close>

definition aged :: "(nat \<Rightarrow> real) \<Rightarrow> nat \<Rightarrow> point_03 \<Rightarrow> real \<Rightarrow> real \<Rightarrow> real \<Rightarrow> point_03" where
  "aged rnd n p width height time =
     (let q = update rnd n p width height time in q\<lparr>age := age q + 1 / fps\<rparr>)"

fun sweep :: "(nat \<Rightarrow> real) \<Rightarrow> real \<Rightarrow> real \<Rightarrow> real \<Rightarrow> nat \<Rightarrow> point_03 list \<Rightarrow> point_03 list" where
  "sweep rnd width height time n [] = []"
| "sweep rnd width height time n [p] =
     (if age (aged rnd n p width height time) \<ge> POINT_LIFESPAN then []
      else [aged rnd n p width height time])"
| "sweep rnd width height time n (p # q # ps) =
     (if age (aged rnd n p width height time) \<ge> POINT_LIFESPAN
      then q # sweep rnd width height time (n + 2) ps
      else aged rnd n p width height time # sweep rnd width height time (n + 2) (q # ps))"

subsection \<open>The MIDI variant\<close>

definition new_Point_midi :: "(nat \<Rightarrow> real) \<Rightarrow> nat \<Rightarrow> real \<Rightarrow> real \<Rightarrow> point_midi" where
  "new_Point_midi rnd n a b =
     \<lparr>pos = Vector a b,
      vel = Vector (random_range (rnd n) (- 0.2) 0.2) (random_range (rnd (n + 1)) (- 0.2) 0.2),
      radius = 3, age = 0,
      lifespan = random_range (rnd (n + 2)) POINT_LIFESPAN_MIN POINT_LIFESPAN_MAX\<rparr>"

definition push_Point_midi ::
  "(nat \<Rightarrow> real) \<Rightarrow> real \<Rightarrow> real \<Rightarrow> point_midi field_midi \<Rightarrow> point_midi field_midi" where
  "push_Point_midi rnd width height s =
     (let n = seed s;
          a = random_range (rnd n) 0 width;
          b = random_range (rnd (n + 1)) 0 height
      in s\<lparr>points := points s @ [new_Point_midi rnd (n + 2) a b], seed := n + 5\<rparr>)"

fun initial_points_midi ::
  "(nat \<Rightarrow> real) \<Rightarrow> real \<Rightarrow> real \<Rightarrow> nat \<Rightarrow> point_midi field_midi \<Rightarrow> point_midi field_midi" where
  "initial_points_midi rnd width height 0 s = s"
| "initial_points_midi rnd width height (Suc i) s =
     initial_points_midi rnd width height i (push_Point_midi rnd width height s)"

definition sketch_midi :: "(nat \<Rightarrow> real) \<Rightarrow> real \<Rightarrow> real \<Rightarrow> point_midi field_midi" where
  "sketch_midi rnd width height =
     initial_points_midi rnd width height INITIAL_POINTS_midi
       \<lparr>points = [], seed = 0, canvas = [], sent = []\<rparr>"

function top_up_midi ::
  "(nat \<Rightarrow> real) \<Rightarrow> real \<Rightarrow> real \<Rightarrow> point_midi field_midi \<Rightarrow> point_midi field_midi" where
  "top_up_midi rnd width height s =
     (if length (points s) < MIN_ACTIVE_POINTS
      then top_up_midi rnd width height (push_Point_midi rnd width height s)
      else s)"
  by pat_completeness auto
termination
  by (relation "measure (\<lambda>(rnd, width, height, s). MIN_ACTIVE_POINTS - length (points s))")
     (auto simp: push_Point_midi_def Let_def)

declare top_up_midi.simps [simp del]

definition update_midi :: "point_midi \<Rightarrow> real \<Rightarrow> real \<Rightarrow> real \<Rightarrow> point_midi" where
  "update_midi p width height time =
     (let p = p\<lparr>pos := (pos p)\<lparr>coord_x := coord_x (pos p) + coord_x (vel p)\<rparr>\<rparr>;
          p = p\<lparr>pos := (pos p)\<lparr>coord_y := coord_y (pos p) + coord_y (vel p)\<rparr>\<rparr>
      in wrap p width height)"

definition draw_point_midi :: "point_midi \<Rightarrow> draw" where
  "draw_point_midi p = Circle (math_mapRange (age p) 0 (lifespan p) 1 0) (pos p) (radius p)"

text \<open>
  \<open>midiOutput\<close> tells whether the global of that name holds an output when the frame is
  rendered; \<^verbatim>\<open>midiOutput.send(m)\<close> appends \<open>m\<close> to \<open>sent\<close>.
\<close>

definition callback_midi ::
  "bool \<Rightarrow> real \<Rightarrow> real \<Rightarrow> real \<Rightarrow> point_midi \<Rightarrow> nat \<Rightarrow> point_midi field_midi \<Rightarrow> point_midi field_midi" where
  "callback_midi midiOutput width height time p index s =
     (let p = update_midi p width height time;
          s = s\<lparr>canvas := canvas s @ [draw_point_midi p]\<rparr>;
          midiNote = mapRange (coord_x (pos p)) 0 width NOTE_MIN NOTE_MAX;
          velocity = mapRange (coord_y (pos p)) 0 height VELOCITY_MIN VELOCITY_MAX;
          s = (if age p = 0 \<and> midiOutput then s\<lparr>sent := sent s @ [[144, midiNote, velocity]]\<rparr> else s);
          p = p\<lparr>age := age p + 1 / fps\<rparr>;
          s = s\<lparr>points := (points s)[index := p]\<rparr>
      in if age p \<ge> lifespan p \<and> midiOutput
         then (let s = s\<lparr>sent := sent s @ [[128, midiNote, 0]]\<rparr>
               in s\<lparr>points := splice_js index 1 (points s)\<rparr>)
         else s)"

definition spawn_and_connect_midi ::
  "(nat \<Rightarrow> real) \<Rightarrow> real \<Rightarrow> real \<Rightarrow> real \<Rightarrow> point_midi field_midi \<Rightarrow> point_midi field_midi" where
  "spawn_and_connect_midi rnd width height time s =
     (let s = s\<lparr>canvas := canvas s @ [FillRect ''rgba(10, 2, 2, 0.2)'' 0 0 width height]\<rparr>;
          s = top_up_midi rnd width height s;
          u = rnd (seed s);
          s = s\<lparr>seed := seed s + 1\<rparr>;
          s = (if random_chance u (THOUGHTS_PER_SECOND_midi / 60) then push_Point_midi rnd width height s else s)
      in s\<lparr>canvas := canvas s @ connections (points s) (dynamicThreshold time)\<rparr>)"

definition render_midi ::
  "(nat \<Rightarrow> real) \<Rightarrow> bool \<Rightarrow> real \<Rightarrow> real \<Rightarrow> real \<Rightarrow> point_midi field_midi \<Rightarrow> point_midi field_midi" where
  "render_midi rnd midiOutput width height time s =
     forEach (callback_midi midiOutput width height time)
       (spawn_and_connect_midi rnd width height time s)"

text \<open>
  \<open>frames_midi n\<close> renders the first \<open>n\<close> frames: frame \<open>i\<close> at the time \<open>time i\<close>, with
  \<open>midiOutput i\<close> telling whether an output is set by then.
\<close>

fun frames_midi ::
  "(nat \<Rightarrow> real) \<Rightarrow> (nat \<Rightarrow> bool) \<Rightarrow> real \<Rightarrow> real \<Rightarrow> (nat \<Rightarrow> real) \<Rightarrow> nat \<Rightarrow>
   point_midi field_midi \<Rightarrow> point_midi field_midi" where
  "frames_midi rnd midiOutput width height time 0 s = s"
| "frames_midi rnd midiOutput width height time (Suc n) s =
     render_midi rnd (midiOutput n) width height (time n)
       (frames_midi rnd midiOutput width height time n s)"

text \<open>
  The pass of the MIDI variant in closed form: \<open>aged_midi\<close> is the point as one call of the
  callback leaves it, \<open>note_on\<close> and \<open>note_off\<close> are the messages that call sends,
  \<open>sweep_midi\<close> is the array and \<open>notes_midi\<close> are the messages of the whole
  \<^verbatim>\<open>forEach\<close>.
\<close>

definition aged_midi :: "point_midi \<Rightarrow> real \<Rightarrow> real \<Rightarrow> real \<Rightarrow> point_midi" where
  "aged_midi p width height time =
     (let q = update_midi p width height time in q\<lparr>age := age q + 1 / fps\<rparr>)"

definition expired_midi :: "bool \<Rightarrow> point_midi \<Rightarrow> bool" where
  "expired_midi midiOutput p' \<longleftrightarrow> age p' \<ge> lifespan p' \<and> midiOutput"

definition note_on :: "bool \<Rightarrow> real \<Rightarrow> real \<Rightarrow> real \<Rightarrow> point_midi \<Rightarrow> int list list" where
  "note_on midiOutput width height time p =
     (let q = update_midi p width height time
      in if age q = 0 \<and> midiOutput
         then [[144, mapRange (coord_x (pos q)) 0 width NOTE_MIN NOTE_MAX,
                     mapRange (coord_y (pos q)) 0 height VELOCITY_MIN VELOCITY_MAX]]
         else [])"

definition note_off :: "bool \<Rightarrow> real \<Rightarrow> real \<Rightarrow> real \<Rightarrow> point_midi \<Rightarrow> int list list" where
  "note_off midiOutput width height time p =
     (let q = update_midi p width height time
      in if expired_midi midiOutput (aged_midi p width height time)
         then [[128, mapRange (coord_x (pos q)) 0 width NOTE_MIN NOTE_MAX, 0]]
         else [])"

fun sweep_midi :: "bool \<Rightarrow> real \<Rightarrow> real \<Rightarrow> real \<Rightarrow> point_midi list \<Rightarrow> point_midi list" where
  "sweep_midi midiOutput width height time [] = []"
| "sweep_midi midiOutput width height time [p] =
     (if expired_midi midiOutput (aged_midi p width height time) then []
      else [aged_midi p width height time])"
| "sweep_midi midiOutput width height time (p # q # ps) =
     (if expired_midi midiOutput (aged_midi p width height time)
      then q # sweep_midi midiOutput width height time ps
      else aged_midi p width height time # sweep_midi midiOutput width height time (q # ps))"

fun notes_midi :: "bool \<Rightarrow> real \<Rightarrow> real \<Rightarrow> real \<Rightarrow> point_midi list \<Rightarrow> int list list" where
  "notes_midi midiOutput width height time [] = []"
| "notes_midi midiOutput width height time [p] =
     note_on midiOutput width height time p @ note_off midiOutput width height time p"
| "notes_midi midiOutput width height time (p # q # ps) =
     note_on midiOutput width height time p @ note_off midiOutput width height time p @
     (if expired_midi midiOutput (aged_midi p width height time)
      then notes_midi midiOutput width height time ps
      else notes_midi midiOutput width height time (q # ps))"

text \<open>\<open>drift_midi n p\<close> is the point \<open>p\<close> after the callback has been called on it in \<open>n\<close> frames.\<close>

fun drift_midi :: "real \<Rightarrow> real \<Rightarrow> (nat \<Rightarrow> real) \<Rightarrow> nat \<Rightarrow> point_midi \<Rightarrow> point_midi" where
  "drift_midi width height time 0 p = p"
| "drift_midi width height time (Suc n) p =
     aged_midi (drift_midi width height time n p) width height (time n)"

subsection \<open>Example runs\<close>

text \<open>
  A generator that returns 0 at every call (every new point then stands at the origin, moves
  by \<open>-0.2\<close> in both directions per frame and, in the MIDI variant, has the lifespan 60, and
  every frame adds a point); a MIDI output that is there in every frame, and one that never
  is; the time of frame \<open>i\<close> at 60 frames per second.
\<close>

definition rnd0 :: "nat \<Rightarrow> real" where "rnd0 i = 0"

definition midi_on :: "nat \<Rightarrow> bool" where "midi_on i = True"

definition midi_off :: "nat \<Rightarrow> bool" where "midi_off i = False"

definition clock :: "nat \<Rightarrow> real" where "clock i = real i / fps"

text \<open>
  The run of the MIDI variant on a canvas of 1080 by 1350 with that generator, from start-up,
  with an output: \<open>sounding_run\<close>. \<open>first_point\<close> is the first point that the MIDI
  variant creates then.
\<close>

definition first_point :: point_midi where
  "first_point = new_Point_midi rnd0 2 (random_range (rnd0 0) 0 1080) (random_range (rnd0 1) 0 1350)"

definition sounding_run :: "nat \<Rightarrow> point_midi field_midi" where
  "sounding_run n = frames_midi rnd0 midi_on 1080 1350 clock n (sketch_midi rnd0 1080 1350)"

text \<open>Small fields: the empty ones, and one that holds \<open>first_point\<close> alone.\<close>

definition empty_field :: "point_03 field" where
  "empty_field = \<lparr>points = [], seed = 0, canvas = []\<rparr>"

definition empty_field_midi :: "point_midi field_midi" where
  "empty_field_midi = \<lparr>points = [], seed = 0, canvas = [], sent = []\<rparr>"

definition lone_point_field :: "point_midi field_midi" where
  "lone_point_field = \<lparr>points = [first_point], seed = 0, canvas = [], sent = []\<rparr>"

text \<open>Two points at the distance 5, for either program.\<close>

definition near_field :: "point_03 field" where
  "near_field =
     \<lparr>points = [\<lparr>pos = Vector 0 0, vel = Vector 0 0, radius = 3, age = 0, acc = Vector 0 0\<rparr>,
                \<lparr>pos = Vector 3 4, vel = Vector 0 0, radius = 3, age = 0, acc = Vector 0 0\<rparr>],
      seed = 0, canvas = []\<rparr>"

definition near_field_midi :: "point_midi field_midi" where
  "near_field_midi =
     \<lparr>points = [\<lparr>pos = Vector 0 0, vel = Vector 0 0, radius = 3, age = 0, lifespan = 120\<rparr>,
                \<lparr>pos = Vector 3 4, vel = Vector 0 0, radius = 3, age = 0, lifespan = 120\<rparr>],
      seed = 0, canvas = [], sent = []\<rparr>"

text \<open>
  Fields of two points whose first point reaches its lifespan in the next frame, with room
  to spare, and whose second point is young.
\<close>

definition due_point :: point_03 where
  "due_point = \<lparr>pos = Vector 10 20, vel = Vector 0 0, radius = 3, age = 15359 / 128, acc = Vector 0 0\<rparr>"

definition young_point :: point_03 where
  "young_point = \<lparr>pos = Vector 3 4, vel = Vector 0 0, radius = 3, age = 1, acc = Vector 0 0\<rparr>"

definition due_field :: "point_03 field" where
  "due_field = \<lparr>points = [due_point, young_point], seed = 0, canvas = []\<rparr>"

definition due_point_midi :: point_midi where
  "due_point_midi = \<lparr>pos = Vector 360 20, vel = Vector 0 0, radius = 3, age = 7679 / 128, lifespan = 60\<rparr>"

definition young_point_midi :: point_midi where
  "young_point_midi = \<lparr>pos = Vector 3 4, vel = Vector 0 0, radius = 3, age = 1, lifespan = 90\<rparr>"

definition due_field_midi :: "point_midi field_midi" where
  "due_field_midi = \<lparr>points = [due_point_midi, young_point_midi], seed = 0, canvas = [], sent = []\<rparr>"

text \<open>The run with the generator that returns 0 and no output.\<close>

definition silent_run :: "nat \<Rightarrow> point_midi field_midi" where
  "silent_run n = frames_midi rnd0 midi_off 1080 1350 clock n (sketch_midi rnd0 1080 1350)"

text \<open>
  A generator that returns \<open>1 / 16384\<close> at every call: every point of the MIDI variant then
  has the lifespan \<open>60 + 15 / 2048\<close>, which its age passes in the frame 3601 after it was
  created, by more than a third of a step on either side. \<open>first_point1\<close> is the first point
  of the start, \<open>run_with_output\<close> and \<open>run_without_output\<close> are the runs from start-up.
\<close>

definition rnd1 :: "nat \<Rightarrow> real" where "rnd1 i = 1 / 16384"

definition first_point1 :: point_midi where
  "first_point1 = new_Point_midi rnd1 2 (random_range (rnd1 0) 0 1080) (random_range (rnd1 1) 0 1350)"

definition run_with_output :: "nat \<Rightarrow> point_midi field_midi" where
  "run_with_output n = frames_midi rnd1 midi_on 1080 1350 clock n (sketch_midi rnd1 1080 1350)"

definition run_without_output :: "nat \<Rightarrow> point_midi field_midi" where
  "run_without_output n = frames_midi rnd1 midi_off 1080 1350 clock n (sketch_midi rnd1 1080 1350)"

section \<open>Properties\<close>

subsection \<open>Rules for the \<^verbatim>\<open>forEach\<close> loop\<close>

text \<open>
  A loop invariant may depend on the index reached; one that does not is kept by the whole
  loop as soon as every call of the callback keeps it.
\<close>

lemma forEach_loop_rule:
  assumes "P k s" "k \<le> len"
    and "\<And>k s. P k s \<Longrightarrow> k < len \<Longrightarrow> k < length (points s) \<Longrightarrow> P (Suc k) (f (points s ! k) k s)"
    and "\<And>k s. P k s \<Longrightarrow> k < len \<Longrightarrow> \<not> k < length (points s) \<Longrightarrow> P (Suc k) s"
  shows "P len (forEach_loop f len k s)"
  using assms
proof (induction f len k s rule: forEach_loop.induct)
  case (1 f len k s)
  show ?case
  proof (cases "k < len")
    case True
    let ?s' = "if k < length (points s) then f (points s ! k) k s else s"
    have "P (Suc k) ?s'" using 1(2) 1(4) 1(5) True by auto
    moreover have "Suc k \<le> len" using True by simp
    ultimately have "P len (forEach_loop f len (Suc k) ?s')"
      using 1(1)[OF True] 1(4) 1(5) by blast
    then show ?thesis using True by (subst forEach_loop.simps) simp
  next
    case False
    then have "k = len" using 1(3) by simp
    then show ?thesis using 1(2) by (subst forEach_loop.simps) simp
  qed
qed

lemma forEach_invariant:
  assumes "P s"
    and "\<And>k s. P s \<Longrightarrow> k < length (points s) \<Longrightarrow> P (f (points s ! k) k s)"
  shows "P (forEach f s)"
  unfolding forEach_def
  by (rule forEach_loop_rule[where P="\<lambda>k s. P s"]) (use assms in auto)

subsection \<open>The connection threshold\<close>

lemma dynamicThreshold_eq: "dynamicThreshold t = 125 + 25 * sin (t * 0.5)"
  by (simp add: dynamicThreshold_def math_mapRange_def field_simps)

text \<open>
  C8. The connection threshold \<open>mapRange(sin(t * 0.5), -1, 1, 100, 150)\<close> lies between 100
  and 150 at every time \<open>t\<close>, and is 125 whenever \<open>sin (0.5 * t) = 0\<close>.
\<close>

theorem dynamicThreshold_bounds:
  "100 \<le> dynamicThreshold t \<and> dynamicThreshold t \<le> 150 \<and>
   (sin (0.5 * t) = 0 \<longrightarrow> dynamicThreshold t = 125)"
proof -
  define x where "x = sin (t * 0.5)"
  have b: "- 1 \<le> x" "x \<le> 1" by (simp_all add: x_def)
  have e: "dynamicThreshold t = 125 + 25 * x"
    by (simp add: dynamicThreshold_eq x_def)
  have z: "sin (0.5 * t) = x" by (simp add: x_def mult.commute)
  show ?thesis unfolding e z using b by auto
qed

theorem dynamicThreshold_bounds_witness:
  "sin (0.5 * (0::real)) = 0 \<and> dynamicThreshold 0 = 125 \<and> 100 \<le> dynamicThreshold 0 \<and> dynamicThreshold 0 \<le> 150"
  using dynamicThreshold_bounds[of 0] by simp


subsection \<open>Connections\<close>

lemma connections_set:
  "x \<in> set (connections ps thr) \<longleftrightarrow>
     (\<exists>i j. i < j \<and> j < length ps \<and> connection (ps ! i) (ps ! j) thr = Some x)"
proof
  assume "x \<in> set (connections ps thr)"
  then obtain i j where "i < length ps" "i + 1 \<le> j" "j < length ps"
     "x \<in> set (case connection (ps ! i) (ps ! j) thr of None \<Rightarrow> [] | Some l \<Rightarrow> [l])"
    unfolding connections_def by auto
  then have "i < j \<and> j < length ps \<and> connection (ps ! i) (ps ! j) thr = Some x"
    by (cases "connection (ps ! i) (ps ! j) thr") auto
  then show "\<exists>i j. i < j \<and> j < length ps \<and> connection (ps ! i) (ps ! j) thr = Some x"
    by blast
next
  assume "\<exists>i j. i < j \<and> j < length ps \<and> connection (ps ! i) (ps ! j) thr = Some x"
  then obtain i j where ij: "i < j" "j < length ps" "connection (ps ! i) (ps ! j) thr = Some x"
    by blast
  have "x \<in> set (concat (map (\<lambda>j. case connection (ps ! i) (ps ! j) thr of
                                           None \<Rightarrow> [] | Some l \<Rightarrow> [l])
                                   [i + 1 ..< length ps]))"
    using ij by (auto intro!: bexI[of _ j])
  moreover have "i \<in> set [0 ..< length ps]" using ij by simp
  ultimately show "x \<in> set (connections ps thr)"
    unfolding connections_def by (auto simp del: upt_Suc)
qed

lemma connection_eq:
  assumes "0 < thr"
  shows "connection p1 p2 thr =
     (if getDistance (pos p1) (pos p2) > thr then None
      else Some (Stroke (0.6 - 0.6 * getDistance (pos p1) (pos p2) / thr)
                        (1.5 - getDistance (pos p1) (pos p2) / thr) (pos p1) (pos p2)))"
  using assms by (simp add: connection_def Let_def math_mapRange_def field_simps)

lemma dynamicThreshold_pos: "0 < dynamicThreshold time"
proof -
  have "- 1 \<le> sin (time * 0.5)" by simp
  then show ?thesis unfolding dynamicThreshold_eq by linarith
qed

subsection \<open>Notes and velocities\<close>

lemma wrap_pos_x: "0 \<le> width \<Longrightarrow> 0 \<le> coord_x (pos (wrap p width height)) \<and> coord_x (pos (wrap p width height)) \<le> width"
  by (simp add: wrap_def Let_def)

lemma wrap_pos_y: "0 \<le> height \<Longrightarrow> 0 \<le> coord_y (pos (wrap p width height)) \<and> coord_y (pos (wrap p width height)) \<le> height"
  by (simp add: wrap_def Let_def)

lemma wrap_age [simp]: "age (wrap p width height) = age p"
  by (simp add: wrap_def Let_def)

lemma wrap_lifespan [simp]: "lifespan (wrap p width height) = lifespan p"
  by (simp add: wrap_def Let_def)

lemma update_midi_age [simp]: "age (update_midi p width height time) = age p"
  by (simp add: update_midi_def Let_def)

lemma update_midi_lifespan [simp]: "lifespan (update_midi p width height time) = lifespan p"
  by (simp add: update_midi_def Let_def)

lemma update_midi_pos_x:
  "0 \<le> width \<Longrightarrow> 0 \<le> coord_x (pos (update_midi p width height time)) \<and>
     coord_x (pos (update_midi p width height time)) \<le> width"
  unfolding update_midi_def Let_def by (rule wrap_pos_x)

lemma update_midi_pos_y:
  "0 \<le> height \<Longrightarrow> 0 \<le> coord_y (pos (update_midi p width height time)) \<and>
     coord_y (pos (update_midi p width height time)) \<le> height"
  unfolding update_midi_def Let_def by (rule wrap_pos_y)

lemma mapRange_nearest:
  "\<bar>real_of_int (mapRange v inMin inMax outMin outMax) -
     ((v - inMin) * (outMax - outMin) / (inMax - inMin) + outMin)\<bar> \<le> 1 / 2"
  unfolding mapRange_def by (rule of_int_round_abs_le)

lemma mapRange_between:
  assumes "0 < w" "0 \<le> v" "v \<le> w" "lo \<le> hi"
  shows "round lo \<le> mapRange v 0 w lo hi \<and> mapRange v 0 w lo hi \<le> round hi"
proof -
  have "0 \<le> v * (hi - lo) / w" using assms by simp
  moreover have "v * (hi - lo) / w \<le> hi - lo"
  proof -
    have "v * (hi - lo) \<le> w * (hi - lo)" using assms by (simp add: mult_right_mono)
    then show ?thesis using assms(1) by (simp add: field_simps)
  qed
  ultimately have "lo \<le> v * (hi - lo) / w + lo" "v * (hi - lo) / w + lo \<le> hi" by simp_all
  then show ?thesis unfolding mapRange_def by (simp add: round_mono)
qed

lemma midiNote_range:
  assumes "0 < w" "0 \<le> v" "v \<le> w"
  shows "36 \<le> mapRange v 0 w NOTE_MIN NOTE_MAX \<and> mapRange v 0 w NOTE_MIN NOTE_MAX \<le> 72"
  using mapRange_between[OF assms, of NOTE_MIN NOTE_MAX] by (simp add: NOTE_MIN_def NOTE_MAX_def)

lemma velocity_range:
  assumes "0 < h" "0 \<le> v" "v \<le> h"
  shows "40 \<le> mapRange v 0 h VELOCITY_MIN VELOCITY_MAX \<and> mapRange v 0 h VELOCITY_MIN VELOCITY_MAX \<le> 100"
  using mapRange_between[OF assms, of VELOCITY_MIN VELOCITY_MAX]
  by (simp add: VELOCITY_MIN_def VELOCITY_MAX_def)

lemma mapRange_ends:
  "0 < w \<Longrightarrow> mapRange 0 0 w lo hi = round lo \<and> mapRange w 0 w lo hi = round hi"
  by (simp add: mapRange_def)

text \<open>What one call of the callback sends.\<close>

lemma callback_midi_sent:
  "sent (callback_midi midiOutput width height time p index s) =
     sent s @
     (let q = update_midi p width height time;
          midiNote = mapRange (coord_x (pos q)) 0 width NOTE_MIN NOTE_MAX;
          velocity = mapRange (coord_y (pos q)) 0 height VELOCITY_MIN VELOCITY_MAX
      in (if age p = 0 \<and> midiOutput then [[144, midiNote, velocity]] else []) @
         (if age p + 1 / fps \<ge> lifespan p \<and> midiOutput then [[128, midiNote, 0]] else []))"
  by (simp add: callback_midi_def Let_def)

lemma push_Point_midi_sent [simp]: "sent (push_Point_midi rnd width height s) = sent s"
  by (simp add: push_Point_midi_def Let_def)

lemma top_up_midi_sent [simp]: "sent (top_up_midi rnd width height s) = sent s"
  by (induction rnd width height s rule: top_up_midi.induct)
     (subst top_up_midi.simps, simp)

lemma render_midi_sent:
  assumes "0 < width" "0 < height"
  shows "\<exists>evs. sent (render_midi rnd midiOutput width height time s) = sent s @ evs \<and>
           (\<forall>m\<in>set evs. \<exists>n v. (m = [144, n, v] \<and> 40 \<le> v \<and> v \<le> 100 \<or> m = [128, n, 0] \<and> v = 0)
                                \<and> 36 \<le> n \<and> n \<le> 72)"
proof -
  define ok where "ok = (\<lambda>m::int list. \<exists>n v. (m = [144, n, v] \<and> 40 \<le> v \<and> v \<le> 100 \<or> m = [128, n, 0] \<and> v = 0)
                                \<and> 36 \<le> n \<and> n \<le> 72)"
  define P where "P = (\<lambda>t::point_midi field_midi. \<exists>evs. sent t = sent s @ evs \<and> (\<forall>m\<in>set evs. ok m))"
  define s4 where "s4 = spawn_and_connect_midi rnd width height time s"
  have r: "render_midi rnd midiOutput width height time s =
      forEach (callback_midi midiOutput width height time) s4"
    by (simp add: render_midi_def s4_def)
  have "sent s4 = sent s" by (simp add: s4_def spawn_and_connect_midi_def Let_def)
  then have P0: "P s4" by (simp add: P_def)
  have step: "P (callback_midi midiOutput width height time (points t ! k) k t)"
    if "P t" for t k
  proof -
    from that obtain evs where e: "sent t = sent s @ evs" "\<forall>m\<in>set evs. ok m"
      unfolding P_def by blast
    define q where "q = update_midi (points t ! k) width height time"
    define n where "n = mapRange (coord_x (pos q)) 0 width NOTE_MIN NOTE_MAX"
    define v where "v = mapRange (coord_y (pos q)) 0 height VELOCITY_MIN VELOCITY_MAX"
    have n: "36 \<le> n \<and> n \<le> 72"
      unfolding n_def q_def
      using midiNote_range[OF assms(1)] update_midi_pos_x[of width "points t ! k" height time] assms(1)
      by simp
    have v: "40 \<le> v \<and> v \<le> 100"
      unfolding v_def q_def
      using velocity_range[OF assms(2)] update_midi_pos_y[of height "points t ! k" width time] assms(2)
      by simp
    have on: "ok [144, n, v]" unfolding ok_def using n v by blast
    have off: "ok [128, n, 0]" unfolding ok_def using n by blast
    obtain new where new: "sent (callback_midi midiOutput width height time (points t ! k) k t) = sent t @ new"
      and sub: "set new \<subseteq> {[144, n, v], [128, n, 0]}"
      unfolding callback_midi_sent Let_def n_def v_def q_def by auto
    have "\<forall>m\<in>set (evs @ new). ok m" using e(2) sub on off by auto
    then show ?thesis unfolding P_def new e(1) by (metis append.assoc)
  qed
  have "P (forEach (callback_midi midiOutput width height time) s4)"
    by (rule forEach_invariant[where P = P, OF P0]) (rule step)
  then show ?thesis unfolding r P_def ok_def .
qed

text \<open>
  C10. The note mapping rounds to the nearest integer; a point at \<open>x = 0\<close> maps to note 36
  and one at \<open>x = width\<close> to note 72, a point at \<open>y = 0\<close> to velocity 40 and one at
  \<open>y = height\<close> to velocity 100; and every message that a frame sends is a note-on or a
  note-off whose note and velocity lie between 0 and 127. The canvas has a positive width
  and height.
\<close>

theorem note_mapping:
  assumes "0 < width" "0 < height"
  shows "mapRange 0 0 width NOTE_MIN NOTE_MAX = 36 \<and>
         mapRange width 0 width NOTE_MIN NOTE_MAX = 72 \<and>
         mapRange 0 0 height VELOCITY_MIN VELOCITY_MAX = 40 \<and>
         mapRange height 0 height VELOCITY_MIN VELOCITY_MAX = 100 \<and>
         \<bar>real_of_int (mapRange a 0 width NOTE_MIN NOTE_MAX) -
            (NOTE_MIN + a * (NOTE_MAX - NOTE_MIN) / width)\<bar> \<le> 1 / 2 \<and>
         \<bar>real_of_int (mapRange b 0 height VELOCITY_MIN VELOCITY_MAX) -
            (VELOCITY_MIN + b * (VELOCITY_MAX - VELOCITY_MIN) / height)\<bar> \<le> 1 / 2 \<and>
         (\<exists>evs. sent (render_midi rnd midiOutput width height time s) = sent s @ evs \<and>
            (\<forall>m\<in>set evs. \<exists>n v. (m = [144, n, v] \<or> m = [128, n, v] \<and> v = 0) \<and>
                                  0 \<le> n \<and> n \<le> 127 \<and> 0 \<le> v \<and> v \<le> 127))"
proof -
  have ends: "mapRange 0 0 width NOTE_MIN NOTE_MAX = 36" "mapRange width 0 width NOTE_MIN NOTE_MAX = 72"
    "mapRange 0 0 height VELOCITY_MIN VELOCITY_MAX = 40"
    "mapRange height 0 height VELOCITY_MIN VELOCITY_MAX = 100"
    using assms mapRange_ends[of width NOTE_MIN NOTE_MAX]
      mapRange_ends[of height VELOCITY_MIN VELOCITY_MAX]
    by (simp_all add: NOTE_MIN_def NOTE_MAX_def VELOCITY_MIN_def VELOCITY_MAX_def)
  have near: "\<bar>real_of_int (mapRange a 0 width NOTE_MIN NOTE_MAX) -
            (NOTE_MIN + a * (NOTE_MAX - NOTE_MIN) / width)\<bar> \<le> 1 / 2"
    "\<bar>real_of_int (mapRange b 0 height VELOCITY_MIN VELOCITY_MAX) -
            (VELOCITY_MIN + b * (VELOCITY_MAX - VELOCITY_MIN) / height)\<bar> \<le> 1 / 2"
    using mapRange_nearest[of a 0 width NOTE_MIN NOTE_MAX]
      mapRange_nearest[of b 0 height VELOCITY_MIN VELOCITY_MAX]
    by (simp_all add: add.commute)
  obtain evs where evs: "sent (render_midi rnd midiOutput width height time s) = sent s @ evs"
    and ok: "\<forall>m\<in>set evs. \<exists>n v. (m = [144, n, v] \<and> 40 \<le> v \<and> v \<le> 100 \<or> m = [128, n, 0] \<and> v = 0)
                                \<and> 36 \<le> n \<and> n \<le> 72"
    using render_midi_sent[OF assms] by blast
  have one: "\<exists>n v. (m = [144, n, v] \<or> m = [128, n, v] \<and> v = 0) \<and>
               0 \<le> n \<and> n \<le> 127 \<and> 0 \<le> v \<and> v \<le> 127" if "m \<in> set evs" for m
  proof -
    from ok that obtain n v where
      "(m = [144, n, v] \<and> 40 \<le> v \<and> v \<le> 100 \<or> m = [128, n, 0] \<and> v = 0) \<and> 36 \<le> n \<and> n \<le> 72"
      by blast
    then have "(m = [144, n, v] \<or> m = [128, n, v] \<and> v = 0) \<and>
               0 \<le> n \<and> n \<le> 127 \<and> 0 \<le> v \<and> v \<le> 127" by auto
    then show ?thesis by (intro exI)
  qed
  have all: "\<forall>m\<in>set evs. \<exists>n v. (m = [144, n, v] \<or> m = [128, n, v] \<and> v = 0) \<and>
                                  0 \<le> n \<and> n \<le> 127 \<and> 0 \<le> v \<and> v \<le> 127"
    by (rule ballI) (rule one)
  have ex: "\<exists>evs. sent (render_midi rnd midiOutput width height time s) = sent s @ evs \<and>
            (\<forall>m\<in>set evs. \<exists>n v. (m = [144, n, v] \<or> m = [128, n, v] \<and> v = 0) \<and>
                                  0 \<le> n \<and> n \<le> 127 \<and> 0 \<le> v \<and> v \<le> 127)"
    by (rule exI[of _ evs], rule conjI, rule evs, rule all)
  show ?thesis by (intro conjI) (rule ends near ex)+
qed

theorem note_mapping_witness:
  "(0::real) < 1080 \<and> (0::real) < 1350 \<and>
   mapRange 0 0 1080 NOTE_MIN NOTE_MAX = 36 \<and>
   mapRange 1080 0 1080 NOTE_MIN NOTE_MAX = 72 \<and>
   mapRange 0 0 1350 VELOCITY_MIN VELOCITY_MAX = 40 \<and>
   mapRange 1350 0 1350 VELOCITY_MIN VELOCITY_MAX = 100 \<and>
   \<bar>real_of_int (mapRange 15 0 1080 NOTE_MIN NOTE_MAX) -
      (NOTE_MIN + 15 * (NOTE_MAX - NOTE_MIN) / 1080)\<bar> \<le> 1 / 2 \<and>
   \<bar>real_of_int (mapRange 0 0 1350 VELOCITY_MIN VELOCITY_MAX) -
      (VELOCITY_MIN + 0 * (VELOCITY_MAX - VELOCITY_MIN) / 1350)\<bar> \<le> 1 / 2 \<and>
   (\<exists>evs. sent (render_midi (\<lambda>i. 0) True 1080 1350 0 \<lparr>points = [], seed = 0, canvas = [], sent = []\<rparr>)
             = sent (\<lparr>points = [], seed = 0, canvas = [], sent = []\<rparr> :: point_midi field_midi) @ evs \<and>
      (\<forall>m\<in>set evs. \<exists>n v. (m = [144, n, v] \<or> m = [128, n, v] \<and> v = 0) \<and>
                            0 \<le> n \<and> n \<le> 127 \<and> 0 \<le> v \<and> v \<le> 127))"
proof -
  have w: "(0::real) < 1080" and h: "(0::real) < 1350" by simp_all
  show ?thesis
    by (rule conjI[OF w conjI[OF h note_mapping[OF w h]]])
qed

subsection \<open>The pass of the MIDI variant\<close>

lemma callback_midi_points:
  assumes "k < length (points s)"
  shows "points (callback_midi m w h t (points s ! k) k s) =
     (if expired_midi m (aged_midi (points s ! k) w h t)
      then take k (points s) @ drop (Suc k) (points s)
      else (points s)[k := aged_midi (points s ! k) w h t])"
  by (simp add: callback_midi_def Let_def aged_midi_def expired_midi_def splice_js_def)

lemma callback_midi_notes:
  "sent (callback_midi m w h t p k s) = sent s @ note_on m w h t p @ note_off m w h t p"
  by (simp add: callback_midi_def Let_def aged_midi_def expired_midi_def note_on_def note_off_def)

lemma sweep_midi_keep:
  "\<not> expired_midi m (aged_midi p w h t) \<Longrightarrow>
     sweep_midi m w h t (p # ps) = aged_midi p w h t # sweep_midi m w h t ps"
  by (cases ps) simp_all

lemma sweep_midi_skip:
  "expired_midi m (aged_midi p w h t) \<Longrightarrow>
     sweep_midi m w h t (p # ps) = (case ps of [] \<Rightarrow> [] | q # qs \<Rightarrow> q # sweep_midi m w h t qs)"
  by (cases ps) simp_all

lemma notes_midi_keep:
  "\<not> expired_midi m (aged_midi p w h t) \<Longrightarrow>
     notes_midi m w h t (p # ps) = note_on m w h t p @ note_off m w h t p @ notes_midi m w h t ps"
  by (cases ps) simp_all

lemma notes_midi_skip:
  "expired_midi m (aged_midi p w h t) \<Longrightarrow>
     notes_midi m w h t (p # ps) = note_on m w h t p @ note_off m w h t p @
       (case ps of [] \<Rightarrow> [] | q # qs \<Rightarrow> notes_midi m w h t qs)"
  by (cases ps) simp_all

lemma forEach_loop_midi:
  assumes "f = callback_midi m w h t" "length (points s) \<le> len"
  shows "points (forEach_loop f len k s) = take k (points s) @ sweep_midi m w h t (drop k (points s)) \<and>
         sent (forEach_loop f len k s) = sent s @ notes_midi m w h t (drop k (points s))"
  using assms
proof (induction f len k s rule: forEach_loop.induct)
  case (1 f len k s)
  let ?ps = "points s"
  show ?case
  proof (cases "k < len")
    case False
    then have "length ?ps \<le> k" using 1(3) by simp
    then show ?thesis using False by (subst (1 2) forEach_loop.simps) simp
  next
    case True
    show ?thesis
    proof (cases "k < length ?ps")
      case False
      have "points (forEach_loop f len (Suc k) s) = take (Suc k) ?ps @ sweep_midi m w h t (drop (Suc k) ?ps) \<and>
            sent (forEach_loop f len (Suc k) s) = sent s @ notes_midi m w h t (drop (Suc k) ?ps)"
        using 1(1)[OF True 1(2)] False 1(3) by simp
      then show ?thesis using True False by (subst (1 2) forEach_loop.simps) simp
    next
      case inside: True
      define p where "p = ?ps ! k"
      define s' where "s' = f p k s"
      have d: "drop k ?ps = p # drop (Suc k) ?ps"
        unfolding p_def using inside by (simp add: Cons_nth_drop_Suc)
      have pts: "points s' = (if expired_midi m (aged_midi p w h t)
          then take k ?ps @ drop (Suc k) ?ps else ?ps[k := aged_midi p w h t])"
        unfolding s'_def p_def 1(2) by (rule callback_midi_points[OF inside])
      have snt: "sent s' = sent s @ note_on m w h t p @ note_off m w h t p"
        unfolding s'_def 1(2) by (rule callback_midi_notes)
      have len': "length (points s') \<le> len" using pts 1(3) by (simp split: if_splits)
      have IH: "points (forEach_loop f len (Suc k) s') =
           take (Suc k) (points s') @ sweep_midi m w h t (drop (Suc k) (points s')) \<and>
         sent (forEach_loop f len (Suc k) s') =
           sent s' @ notes_midi m w h t (drop (Suc k) (points s'))"
        using 1(1)[OF True 1(2)] inside len' unfolding s'_def p_def by simp
      have unf: "forEach_loop f len k s = forEach_loop f len (Suc k) s'"
        using True inside unfolding s'_def p_def by (subst forEach_loop.simps) simp
      show ?thesis
      proof (cases "expired_midi m (aged_midi p w h t)")
        case False
        have a: "take (Suc k) (points s') = take k ?ps @ [aged_midi p w h t]"
          using pts False inside by (simp add: take_Suc_conv_app_nth)
        have b: "drop (Suc k) (points s') = drop (Suc k) ?ps"
          using pts False by simp
        show ?thesis
          unfolding unf using IH a b d snt False
          by (simp add: sweep_midi_keep notes_midi_keep)
      next
        case expired: True
        have pts': "points s' = take k ?ps @ drop (Suc k) ?ps" using pts expired by simp
        show ?thesis
        proof (cases "Suc k < length ?ps")
          case True
          have d2: "drop (Suc k) ?ps = ?ps ! Suc k # drop (Suc (Suc k)) ?ps"
            using True by (simp add: Cons_nth_drop_Suc)
          have a: "take (Suc k) (points s') = take k ?ps @ [?ps ! Suc k]"
            unfolding pts' using True inside d2 by (simp add: min_def)
          have b: "drop (Suc k) (points s') = drop (Suc (Suc k)) ?ps"
            unfolding pts' using True inside d2 by (simp add: min_def)
          show ?thesis
            unfolding unf using IH a b d d2 snt expired
            by (simp add: sweep_midi_skip notes_midi_skip)
        next
          case False
          then have e: "drop (Suc k) ?ps = []" by simp
          have a: "take (Suc k) (points s') = take k ?ps"
            unfolding pts' e by simp
          have b: "drop (Suc k) (points s') = []"
            unfolding pts' e using inside by simp
          show ?thesis
            unfolding unf using IH a b d e snt expired
            by (simp add: sweep_midi_skip notes_midi_skip)
        qed
      qed
    qed
  qed
qed

lemma render_midi_sweep:
  "points (render_midi rnd m w h t s) = sweep_midi m w h t (points (spawn_and_connect_midi rnd w h t s))"
  "sent (render_midi rnd m w h t s) =
     sent (spawn_and_connect_midi rnd w h t s) @
     notes_midi m w h t (points (spawn_and_connect_midi rnd w h t s))"
  unfolding render_midi_def forEach_def
  using forEach_loop_midi[OF refl order_refl, of m w h t "spawn_and_connect_midi rnd w h t s" 0]
  by simp_all

lemma push_Point_midi_points:
  "points (push_Point_midi rnd w h s) =
     points s @ [new_Point_midi rnd (seed s + 2) (random_range (rnd (seed s)) 0 w)
                   (random_range (rnd (seed s + 1)) 0 h)]"
  by (simp add: push_Point_midi_def Let_def)

lemma top_up_midi_points:
  "\<exists>news. points (top_up_midi rnd w h s) = points s @ news \<and>
          (\<forall>q\<in>set news. \<exists>n a b. q = new_Point_midi rnd n a b) \<and>
          length news = MIN_ACTIVE_POINTS - length (points s)"
proof (induction rnd w h s rule: top_up_midi.induct)
  case (1 rnd w h s)
  show ?case
  proof (cases "length (points s) < MIN_ACTIVE_POINTS")
    case False
    then show ?thesis by (subst top_up_midi.simps) simp
  next
    case True
    let ?s' = "push_Point_midi rnd w h s"
    from 1[OF True] obtain news where n: "points (top_up_midi rnd w h ?s') = points ?s' @ news"
      "\<forall>q\<in>set news. \<exists>n a b. q = new_Point_midi rnd n a b"
      "length news = MIN_ACTIVE_POINTS - length (points ?s')" by blast
    obtain q where q: "points ?s' = points s @ [q]" "\<exists>n a b. q = new_Point_midi rnd n a b"
      using push_Point_midi_points[of rnd w h s] by blast
    have "points (top_up_midi rnd w h s) = points s @ (q # news)"
      using True n(1) q(1) by (subst top_up_midi.simps) simp
    moreover have "\<forall>x\<in>set (q # news). \<exists>n a b. x = new_Point_midi rnd n a b"
      using n(2) q(2) by simp
    moreover have "length (q # news) = MIN_ACTIVE_POINTS - length (points s)"
      using True n(3) q(1) by simp
    ultimately show ?thesis by blast
  qed
qed

lemma spawn_and_connect_midi_sent [simp]: "sent (spawn_and_connect_midi rnd w h t s) = sent s"
  by (simp add: spawn_and_connect_midi_def Let_def)

lemma spawn_and_connect_midi_points:
  "\<exists>news. points (spawn_and_connect_midi rnd w h t s) = points s @ news \<and>
          (\<forall>q\<in>set news. \<exists>n a b. q = new_Point_midi rnd n a b) \<and>
          (length news = MIN_ACTIVE_POINTS - length (points s) \<or>
           length news = MIN_ACTIVE_POINTS - length (points s) + 1)"
proof -
  define s0 where "s0 = s\<lparr>canvas := canvas s @ [FillRect ''rgba(10, 2, 2, 0.2)'' 0 0 w h]\<rparr>"
  define s1 where "s1 = top_up_midi rnd w h s0"
  define s2 where "s2 = s1\<lparr>seed := seed s1 + 1\<rparr>"
  obtain news where n: "points s1 = points s @ news"
      "\<forall>q\<in>set news. \<exists>n a b. q = new_Point_midi rnd n a b"
      "length news = MIN_ACTIVE_POINTS - length (points s)"
    using top_up_midi_points[of rnd w h s0] unfolding s1_def s0_def by auto
  show ?thesis
  proof (cases "random_chance (rnd (seed s1)) (THOUGHTS_PER_SECOND_midi / 60)")
    case False
    then have "points (spawn_and_connect_midi rnd w h t s) = points s @ news"
      using n(1) by (simp add: spawn_and_connect_midi_def Let_def s1_def s0_def)
    then show ?thesis using n(2,3) by blast
  next
    case True
    obtain q where q: "points (push_Point_midi rnd w h s2) = points s2 @ [q]"
       "\<exists>n a b. q = new_Point_midi rnd n a b"
      using push_Point_midi_points[of rnd w h s2] by blast
    have "points (spawn_and_connect_midi rnd w h t s) = points s @ (news @ [q])"
      using True n(1) q(1) by (simp add: spawn_and_connect_midi_def Let_def s1_def s0_def s2_def)
    moreover have "\<forall>x\<in>set (news @ [q]). \<exists>n a b. x = new_Point_midi rnd n a b"
      using n(2) q(2) by auto
    moreover have "length (news @ [q]) = MIN_ACTIVE_POINTS - length (points s) + 1"
      using n(3) by simp
    ultimately show ?thesis by blast
  qed
qed

lemma sweep_midi_prefix:
  "\<forall>p\<in>set pre. \<not> expired_midi m (aged_midi p w h t) \<Longrightarrow>
     sweep_midi m w h t (pre @ rest) = map (\<lambda>p. aged_midi p w h t) pre @ sweep_midi m w h t rest"
  by (induction pre) (simp_all add: sweep_midi_keep)

lemma sweep_midi_set:
  "q \<in> set (sweep_midi m w h t ps) \<Longrightarrow>
     q \<in> set ps \<or> (\<exists>p\<in>set ps. q = aged_midi p w h t \<and> \<not> expired_midi m (aged_midi p w h t))"
  by (induction m w h t ps rule: sweep_midi.induct) (auto split: if_splits)

lemma render_midi_prefix:
  assumes "points s = pre @ rest" "\<forall>p\<in>set pre. \<not> expired_midi m (aged_midi p w h t)"
  shows "\<exists>rest'. points (render_midi rnd m w h t s) = map (\<lambda>p. aged_midi p w h t) pre @ rest'"
proof -
  obtain news where "points (spawn_and_connect_midi rnd w h t s) = pre @ (rest @ news)"
    using spawn_and_connect_midi_points[of rnd w h t s] assms(1) by auto
  then show ?thesis
    unfolding render_midi_sweep using sweep_midi_prefix[OF assms(2)] by simp
qed

lemma frames_midi_prefix:
  assumes "points s = pre @ rest"
    and "\<forall>i<n. \<forall>p\<in>set pre. \<not> expired_midi (m i) (drift_midi w h time (Suc i) p)"
  shows "\<exists>rest'. points (frames_midi rnd m w h time n s) = map (drift_midi w h time n) pre @ rest'"
  using assms(2)
proof (induction n)
  case 0
  then show ?case using assms(1) by simp
next
  case (Suc n)
  then obtain rest' where r: "points (frames_midi rnd m w h time n s)
      = map (drift_midi w h time n) pre @ rest'" by auto
  have "\<forall>p\<in>set (map (drift_midi w h time n) pre). \<not> expired_midi (m n) (aged_midi p w h (time n))"
    using Suc.prems by simp
  from render_midi_prefix[OF r this, of rnd]
  show ?case by (simp add: comp_def)
qed

subsection \<open>Ages and lifespans in the MIDI variant\<close>

lemma wrap_vel [simp]: "vel (wrap p w h) = vel p"
  by (simp add: wrap_def Let_def)

lemma wrap_radius [simp]: "radius (wrap p w h) = radius p"
  by (simp add: wrap_def Let_def)

lemma aged_midi_age [simp]: "age (aged_midi p w h t) = age p + 1 / 60"
  by (simp add: aged_midi_def Let_def fps_def)

lemma aged_midi_lifespan [simp]: "lifespan (aged_midi p w h t) = lifespan p"
  by (simp add: aged_midi_def Let_def)

lemma drift_midi_age [simp]: "age (drift_midi w h time n p) = age p + real n / 60"
  by (induction n) (simp_all add: field_simps)

lemma drift_midi_lifespan [simp]: "lifespan (drift_midi w h time n p) = lifespan p"
  by (induction n) simp_all

lemma new_Point_midi_age [simp]: "age (new_Point_midi rnd n a b) = 0"
  by (simp add: new_Point_midi_def)

lemma new_Point_midi_lifespan:
  "0 \<le> rnd (n + 2) \<Longrightarrow> 60 \<le> lifespan (new_Point_midi rnd n a b)"
  by (simp add: new_Point_midi_def random_range_def POINT_LIFESPAN_MIN_def POINT_LIFESPAN_MAX_def)

text \<open>With an output in the frame, no point that has reached its lifespan is left behind.\<close>

lemma render_midi_alive:
  assumes "\<forall>i. 0 \<le> rnd i" "\<forall>q\<in>set (points s). age q < lifespan q"
  shows "\<forall>q\<in>set (points (render_midi rnd True w h t s)). age q < lifespan q"
proof
  fix q assume q: "q \<in> set (points (render_midi rnd True w h t s))"
  obtain news where n: "points (spawn_and_connect_midi rnd w h t s) = points s @ news"
    "\<forall>q\<in>set news. \<exists>n a b. q = new_Point_midi rnd n a b"
    using spawn_and_connect_midi_points[of rnd w h t s] by blast
  have fresh: "age x < lifespan x" if "x \<in> set news" for x
  proof -
    from n(2) that obtain k a b where "x = new_Point_midi rnd k a b" by blast
    then show ?thesis using new_Point_midi_lifespan[of rnd k a b] assms(1) by simp
  qed
  have before: "\<forall>x\<in>set (points s @ news). age x < lifespan x"
    using assms(2) fresh by auto
  from q have "q \<in> set (sweep_midi True w h t (points s @ news))"
    unfolding render_midi_sweep n(1) .
  then have "q \<in> set (points s @ news) \<or>
      (\<exists>p\<in>set (points s @ news). q = aged_midi p w h t \<and> \<not> expired_midi True (aged_midi p w h t))"
    by (rule sweep_midi_set)
  then show "age q < lifespan q"
    using before by (auto simp: expired_midi_def)
qed

lemma frames_midi_alive:
  assumes "\<forall>i. 0 \<le> rnd i" "\<forall>q\<in>set (points s). age q < lifespan q" "\<forall>i. m i"
  shows "\<forall>q\<in>set (points (frames_midi rnd m w h time n s)). age q < lifespan q"
proof (induction n)
  case 0
  show ?case using assms(2) by simp
next
  case (Suc n)
  have "m n = True" using assms(3) by simp
  then show ?case using render_midi_alive[OF assms(1) Suc] by simp
qed

subsection \<open>The run with the generator that returns 0\<close>

lemma first_point_eq:
  "first_point = \<lparr>pos = Vector 0 0, vel = Vector (- 0.2) (- 0.2), radius = 3, age = 0, lifespan = 60\<rparr>"
  by (simp add: first_point_def new_Point_midi_def rnd0_def random_range_def
      POINT_LIFESPAN_MIN_def POINT_LIFESPAN_MAX_def)

lemma push_Point_midi_rnd0:
  "points (push_Point_midi rnd0 1080 1350 s) = points s @ [first_point]"
  by (simp add: push_Point_midi_points first_point_def new_Point_midi_def rnd0_def random_range_def)

lemma initial_points_midi_rnd0:
  "points (initial_points_midi rnd0 1080 1350 i s) = points s @ replicate i first_point"
proof (induction i arbitrary: s)
  case 0
  show ?case by simp
next
  case (Suc i)
  show ?case
    unfolding initial_points_midi.simps Suc push_Point_midi_rnd0
    by (simp add: replicate_app_Cons_same)
qed

lemma sketch_midi_rnd0: "points (sketch_midi rnd0 1080 1350) = replicate 300 first_point"
  by (simp add: sketch_midi_def INITIAL_POINTS_midi_def initial_points_midi_rnd0)

lemma sketch_midi_rnd0_two:
  "points (sketch_midi rnd0 1080 1350) = [first_point, first_point] @ replicate 298 first_point"
proof -
  have "(300::nat) = Suc (Suc 298)" by simp
  then show ?thesis unfolding sketch_midi_rnd0 by (simp only: replicate_Suc append_Cons append_Nil)
qed

lemma sketch_midi_sent [simp]: "sent (sketch_midi rnd w h) = []"
proof -
  have "sent (initial_points_midi rnd w h i s) = sent s" for i s
    by (induction i arbitrary: s) simp_all
  then show ?thesis by (simp add: sketch_midi_def)
qed

lemma expired_midi_iff: "expired_midi m q \<longleftrightarrow> lifespan q \<le> age q \<and> m"
  by (simp add: expired_midi_def)

lemma first_point_fields [simp]: "age first_point = 0" "lifespan first_point = 60"
  by (simp_all add: first_point_eq)

lemma rnd0_nonneg: "\<forall>i. 0 \<le> rnd0 i"
  by (simp add: rnd0_def)

lemma notes_midi_Cons:
  "\<exists>later. notes_midi m w h t (p # ps) = note_on m w h t p @ note_off m w h t p @ later"
  by (cases ps) simp_all

lemma render_midi_first_notes:
  assumes "points s = p # rest"
  shows "\<exists>later. sent (render_midi rnd m w h t s) =
           sent s @ note_on m w h t p @ note_off m w h t p @ later"
proof -
  obtain news where "points (spawn_and_connect_midi rnd w h t s) = p # (rest @ news)"
    using spawn_and_connect_midi_points[of rnd w h t s] assms by auto
  then show ?thesis
    unfolding render_midi_sweep(2) using notes_midi_Cons[of m w h t p "rest @ news"] by auto
qed

text \<open>The first point of the run, as long as it is not removed.\<close>

lemma run_first_point:
  assumes "\<forall>i<n. \<not> expired_midi (m i) (drift_midi 1080 1350 clock (Suc i) first_point)"
  shows "\<exists>rest. points (frames_midi rnd0 m 1080 1350 clock n (sketch_midi rnd0 1080 1350)) =
           [drift_midi 1080 1350 clock n first_point, drift_midi 1080 1350 clock n first_point] @ rest"
  using frames_midi_prefix[OF sketch_midi_rnd0_two, of n m 1080 1350 clock rnd0] assms by simp

text \<open>
  C4, as stated. "A point of lifespan 60 is removed on the 60th frame." With an output in
  every frame, the first point of the run has the lifespan 60 and is still first in the field
  after 60 frames: its age then is 1.
\<close>

theorem not_removed_on_frame_60:
  "points (sounding_run 60) \<noteq> [] \<and> age (hd (points (sounding_run 60))) = 1 \<and>
   lifespan (hd (points (sounding_run 60))) = 60"
proof -
  have "\<forall>i<60. \<not> expired_midi (midi_on i) (drift_midi 1080 1350 clock (Suc i) first_point)"
    by (simp add: expired_midi_iff)
  from run_first_point[OF this] show ?thesis
    unfolding sounding_run_def by auto
qed

subsection \<open>Lifespans and note-offs\<close>

lemma aged_midi_pos: "pos (aged_midi p w h t) = pos (update_midi p w h t)"
  by (simp add: aged_midi_def Let_def)

lemma frames_midi_first:
  assumes "points s = p # rest"
    and "\<forall>i<n. \<not> expired_midi (m i) (drift_midi w h time (Suc i) p)"
  shows "\<exists>rest'. points (frames_midi rnd m w h time n s) = drift_midi w h time n p # rest'"
  using frames_midi_prefix[of s "[p]" rest n m w h time rnd] assms by simp

lemma last_frame_notes:
  assumes "points s = q # rest" "age q \<noteq> 0" "expired_midi m (aged_midi q w h t)"
  shows "\<exists>later. sent (render_midi rnd m w h t s) =
           sent s @ [[128, mapRange (coord_x (pos (aged_midi q w h t))) 0 w NOTE_MIN NOTE_MAX, 0]] @ later"
proof -
  have "note_on m w h t q = []" using assms(2) by (simp add: note_on_def Let_def)
  moreover have "note_off m w h t q =
      [[128, mapRange (coord_x (pos (aged_midi q w h t))) 0 w NOTE_MIN NOTE_MAX, 0]]"
    using assms(3) by (simp add: note_off_def Let_def aged_midi_pos)
  ultimately show ?thesis
    using render_midi_first_notes[OF assms(1), of rnd m w h t] by simp
qed

lemma last_frame_removal:
  assumes "points s = q # rest" "expired_midi m (aged_midi q w h t)"
  shows "\<exists>rest'. points (spawn_and_connect_midi rnd w h t s) = q # rest' \<and>
           points (callback_midi m w h t q 0 (spawn_and_connect_midi rnd w h t s)) = rest'"
proof -
  define s' where "s' = spawn_and_connect_midi rnd w h t s"
  obtain news where n: "points s' = q # (rest @ news)"
    using spawn_and_connect_midi_points[of rnd w h t s] assms(1) unfolding s'_def by auto
  then have "0 < length (points s')" "points s' ! 0 = q" by simp_all
  then have "points (callback_midi m w h t q 0 s') = rest @ news"
    using callback_midi_points[of 0 s' m w h t] assms(2) n by simp
  then show ?thesis using n unfolding s'_def by blast
qed

subsection \<open>The pass of sketch-03.js\<close>

lemma applyBoundaries_age [simp]: "age (applyBoundaries p w h) = age p"
  by (simp add: applyBoundaries_def Let_def)

lemma update_age [simp]: "age (update rnd n p w h t) = age p"
  by (simp add: update_def Let_def)

lemma aged_age [simp]: "age (aged rnd n p w h t) = age p + 1 / 60"
  by (simp add: aged_def Let_def fps_def)

lemma callback_points:
  assumes "k < length (points s)"
  shows "points (callback rnd w h t (points s ! k) k s) =
     (if POINT_LIFESPAN \<le> age (aged rnd (seed s) (points s ! k) w h t)
      then take k (points s) @ drop (Suc k) (points s)
      else (points s)[k := aged rnd (seed s) (points s ! k) w h t])"
  by (simp add: callback_def Let_def aged_def splice_js_def)

lemma callback_seed: "seed (callback rnd w h t p k s) = seed s + 2"
  by (simp add: callback_def Let_def)

lemma sweep_keep:
  "\<not> POINT_LIFESPAN \<le> age (aged rnd n p w h t) \<Longrightarrow>
     sweep rnd w h t n (p # ps) = aged rnd n p w h t # sweep rnd w h t (n + 2) ps"
  by (cases ps) simp_all

lemma sweep_skip:
  "POINT_LIFESPAN \<le> age (aged rnd n p w h t) \<Longrightarrow>
     sweep rnd w h t n (p # ps) = (case ps of [] \<Rightarrow> [] | q # qs \<Rightarrow> q # sweep rnd w h t (n + 2) qs)"
  by (cases ps) simp_all

lemma forEach_loop_03:
  assumes "f = callback rnd w h t" "length (points s) \<le> len"
  shows "points (forEach_loop f len k s) = take k (points s) @ sweep rnd w h t (seed s) (drop k (points s))"
  using assms
proof (induction f len k s rule: forEach_loop.induct)
  case (1 f len k s)
  let ?ps = "points s"
  show ?case
  proof (cases "k < len")
    case False
    then have "length ?ps \<le> k" using 1(3) by simp
    then show ?thesis using False by (subst forEach_loop.simps) simp
  next
    case True
    show ?thesis
    proof (cases "k < length ?ps")
      case False
      have "points (forEach_loop f len (Suc k) s) =
          take (Suc k) ?ps @ sweep rnd w h t (seed s) (drop (Suc k) ?ps)"
        using 1(1)[OF True 1(2)] False 1(3) by simp
      then show ?thesis using True False by (subst forEach_loop.simps) simp
    next
      case inside: True
      define p where "p = ?ps ! k"
      define p' where "p' = aged rnd (seed s) p w h t"
      define s' where "s' = f p k s"
      have d: "drop k ?ps = p # drop (Suc k) ?ps"
        unfolding p_def using inside by (simp add: Cons_nth_drop_Suc)
      have pts: "points s' = (if POINT_LIFESPAN \<le> age p'
          then take k ?ps @ drop (Suc k) ?ps else ?ps[k := p'])"
        unfolding s'_def p_def p'_def 1(2) by (rule callback_points[OF inside])
      have sd: "seed s' = seed s + 2"
        unfolding s'_def 1(2) by (rule callback_seed)
      have len': "length (points s') \<le> len" using pts 1(3) by (simp split: if_splits)
      have IH: "points (forEach_loop f len (Suc k) s') =
           take (Suc k) (points s') @ sweep rnd w h t (seed s + 2) (drop (Suc k) (points s'))"
        using 1(1)[OF True 1(2)] inside len' sd unfolding s'_def p_def by simp
      have unf: "forEach_loop f len k s = forEach_loop f len (Suc k) s'"
        using True inside unfolding s'_def p_def by (subst forEach_loop.simps) simp
      show ?thesis
      proof (cases "POINT_LIFESPAN \<le> age p'")
        case False
        have a: "take (Suc k) (points s') = take k ?ps @ [p']"
          using pts False inside by (simp add: take_Suc_conv_app_nth)
        have b: "drop (Suc k) (points s') = drop (Suc k) ?ps"
          using pts False by simp
        have "sweep rnd w h t (seed s) (p # drop (Suc k) ?ps) =
            p' # sweep rnd w h t (seed s + 2) (drop (Suc k) ?ps)"
          using False unfolding p'_def by (rule sweep_keep)
        then show ?thesis unfolding unf IH a b d by simp
      next
        case expired: True
        have pts': "points s' = take k ?ps @ drop (Suc k) ?ps" using pts expired by simp
        have sk: "sweep rnd w h t (seed s) (p # drop (Suc k) ?ps) =
            (case drop (Suc k) ?ps of [] \<Rightarrow> [] | q # qs \<Rightarrow> q # sweep rnd w h t (seed s + 2) qs)"
          using expired unfolding p'_def by (rule sweep_skip)
        show ?thesis
        proof (cases "Suc k < length ?ps")
          case True
          have d2: "drop (Suc k) ?ps = ?ps ! Suc k # drop (Suc (Suc k)) ?ps"
            using True by (simp add: Cons_nth_drop_Suc)
          have a: "take (Suc k) (points s') = take k ?ps @ [?ps ! Suc k]"
            unfolding pts' using True inside d2 by (simp add: min_def)
          have b: "drop (Suc k) (points s') = drop (Suc (Suc k)) ?ps"
            unfolding pts' using True inside d2 by (simp add: min_def)
          have sk2: "sweep rnd w h t (seed s) (p # ?ps ! Suc k # drop (Suc (Suc k)) ?ps) =
              ?ps ! Suc k # sweep rnd w h t (seed s + 2) (drop (Suc (Suc k)) ?ps)"
            using sk unfolding d2 by simp
          have dk: "drop k ?ps = p # ?ps ! Suc k # drop (Suc (Suc k)) ?ps" using d d2 by simp
          show ?thesis unfolding unf IH a b dk sk2 by simp
        next
          case False
          then have e: "drop (Suc k) ?ps = []" by simp
          have a: "take (Suc k) (points s') = take k ?ps"
            unfolding pts' e by simp
          have b: "drop (Suc k) (points s') = []"
            unfolding pts' e using inside by simp
          have sk2: "sweep rnd w h t (seed s) [p] = []"
            using sk unfolding e by simp
          have dk: "drop k ?ps = [p]" using d e by simp
          show ?thesis unfolding unf IH a b dk sk2 by simp
        qed
      qed
    qed
  qed
qed

lemma render_sweep:
  "points (render rnd w h t s) =
     sweep rnd w h t (seed (spawn_and_connect rnd w h t s)) (points (spawn_and_connect rnd w h t s))"
  unfolding render_def forEach_def
  using forEach_loop_03[OF refl order_refl, of rnd w h t "spawn_and_connect rnd w h t s" 0]
  by simp

lemma sweep_ages:
  "\<forall>p\<in>set ps. age p + 1 / 60 < POINT_LIFESPAN \<Longrightarrow>
     map age (sweep rnd w h t n ps) = map (\<lambda>p. age p + 1 / 60) ps"
proof (induction ps arbitrary: n)
  case Nil
  show ?case by simp
next
  case (Cons p ps)
  then have "\<not> POINT_LIFESPAN \<le> age (aged rnd n p w h t)" by simp
  then show ?case using Cons by (simp add: sweep_keep)
qed

lemma new_Point_age [simp]: "age (new_Point rnd n a b) = 0"
  by (simp add: new_Point_def)

lemma push_Point_points:
  "points (push_Point rnd w h s) =
     points s @ [new_Point rnd (seed s + 2) (random_range (rnd (seed s)) 0 w)
                   (random_range (rnd (seed s + 1)) 0 h)]"
  by (simp add: push_Point_def Let_def)

lemma top_up_points:
  "\<exists>news. points (top_up rnd w h s) = points s @ news \<and> (\<forall>q\<in>set news. age q = 0) \<and>
          length news = MIN_ACTIVE_POINTS - length (points s)"
proof (induction rnd w h s rule: top_up.induct)
  case (1 rnd w h s)
  show ?case
  proof (cases "length (points s) < MIN_ACTIVE_POINTS")
    case False
    then show ?thesis by (subst top_up.simps) simp
  next
    case True
    let ?s' = "push_Point rnd w h s"
    from 1[OF True] obtain news where n: "points (top_up rnd w h ?s') = points ?s' @ news"
      "\<forall>q\<in>set news. age q = 0"
      "length news = MIN_ACTIVE_POINTS - length (points ?s')" by blast
    obtain q where q: "points ?s' = points s @ [q]" "age q = 0"
      using push_Point_points[of rnd w h s] by simp
    have "points (top_up rnd w h s) = points s @ (q # news)"
      using True n(1) q(1) by (subst top_up.simps) simp
    moreover have "\<forall>x\<in>set (q # news). age x = 0"
      using n(2) q(2) by simp
    moreover have "length (q # news) = MIN_ACTIVE_POINTS - length (points s)"
      using True n(3) q(1) by simp
    ultimately show ?thesis by blast
  qed
qed

lemma spawn_and_connect_points:
  "\<exists>news. points (spawn_and_connect rnd w h t s) = points s @ news \<and> (\<forall>q\<in>set news. age q = 0) \<and>
     length news = MIN_ACTIVE_POINTS - length (points s) +
       (if random_chance
             (rnd (seed (top_up rnd w h
                (s\<lparr>canvas := canvas s @ [FillRect ''rgba(1, 1, 1, 0.1)'' 0 0 w h]\<rparr>))))
             (THOUGHTS_PER_SECOND / 60)
        then 1 else 0)"
proof -
  define s0 where "s0 = s\<lparr>canvas := canvas s @ [FillRect ''rgba(1, 1, 1, 0.1)'' 0 0 w h]\<rparr>"
  define s1 where "s1 = top_up rnd w h s0"
  define s2 where "s2 = s1\<lparr>seed := seed s1 + 1\<rparr>"
  obtain news where n: "points s1 = points s @ news" "\<forall>q\<in>set news. age q = 0"
      "length news = MIN_ACTIVE_POINTS - length (points s)"
    using top_up_points[of rnd w h s0] unfolding s1_def s0_def by auto
  show ?thesis
  proof (cases "random_chance (rnd (seed s1)) (THOUGHTS_PER_SECOND / 60)")
    case False
    then have "points (spawn_and_connect rnd w h t s) = points s @ news"
      using n(1) by (simp add: spawn_and_connect_def Let_def s1_def s0_def)
    then show ?thesis using n(2,3) False unfolding s1_def s0_def by auto
  next
    case True
    obtain q where q: "points (push_Point rnd w h s2) = points s2 @ [q]" "age q = 0"
      using push_Point_points[of rnd w h s2] by simp
    have "points (spawn_and_connect rnd w h t s) = points s @ (news @ [q])"
      using True n(1) q(1) by (simp add: spawn_and_connect_def Let_def s1_def s0_def s2_def)
    moreover have "\<forall>x\<in>set (news @ [q]). age x = 0"
      using n(2) q(2) by auto
    moreover have "length (news @ [q]) = MIN_ACTIVE_POINTS - length (points s) + 1"
      using n(3) by simp
    ultimately show ?thesis using True unfolding s1_def s0_def by auto
  qed
qed

lemma render_skip:
  assumes "points s = a # b # rest" "POINT_LIFESPAN \<le> age a + 1 / 60"
  shows "points (render rnd w h t s) ! 0 = b"
proof -
  obtain news where n: "points (spawn_and_connect rnd w h t s) = a # b # (rest @ news)"
    using spawn_and_connect_points[of rnd w h t s] assms(1) by auto
  show ?thesis unfolding render_sweep n using assms(2) by simp
qed

subsection \<open>Skipped points, and the first frame\<close>

lemma render_midi_skip:
  assumes "points s = a # b # rest" "expired_midi m (aged_midi a w h t)"
  shows "points (render_midi rnd m w h t s) ! 0 = b"
proof -
  obtain news where n: "points (spawn_and_connect_midi rnd w h t s) = a # b # (rest @ news)"
    using spawn_and_connect_midi_points[of rnd w h t s] assms(1) by auto
  show ?thesis unfolding render_midi_sweep n using assms(2) by simp
qed

lemma render_ages:
  assumes "points s = []"
  shows "\<forall>q\<in>set (points (spawn_and_connect rnd w h t s)). age q = 0"
    and "length (points (spawn_and_connect rnd w h t s)) = 150 \<or>
         length (points (spawn_and_connect rnd w h t s)) = 151"
    and "map age (points (render rnd w h t s)) =
         map (\<lambda>p. age p + 1 / 60) (points (spawn_and_connect rnd w h t s))"
proof -
  obtain news where n: "points (spawn_and_connect rnd w h t s) = news" "\<forall>q\<in>set news. age q = 0"
      "length news = 150 \<or> length news = 151"
    using spawn_and_connect_points[of rnd w h t s] assms
    by (auto simp: MIN_ACTIVE_POINTS_def split: if_splits)
  show 1: "\<forall>q\<in>set (points (spawn_and_connect rnd w h t s)). age q = 0"
    and "length (points (spawn_and_connect rnd w h t s)) = 150 \<or>
         length (points (spawn_and_connect rnd w h t s)) = 151"
    using n by simp_all
  have "\<forall>p\<in>set (points (spawn_and_connect rnd w h t s)). age p + 1 / 60 < POINT_LIFESPAN"
    using 1 by (simp add: POINT_LIFESPAN_def)
  then show "map age (points (render rnd w h t s)) =
         map (\<lambda>p. age p + 1 / 60) (points (spawn_and_connect rnd w h t s))"
    unfolding render_sweep by (rule sweep_ages)
qed

lemma render_midi_ages:
  assumes "points s = []" "\<forall>i. 0 \<le> rnd i"
  shows "\<forall>q\<in>set (points (spawn_and_connect_midi rnd w h t s)). age q = 0"
    and "length (points (spawn_and_connect_midi rnd w h t s)) = 150 \<or>
         length (points (spawn_and_connect_midi rnd w h t s)) = 151"
    and "points (render_midi rnd m w h t s) =
         map (\<lambda>p. aged_midi p w h t) (points (spawn_and_connect_midi rnd w h t s))"
proof -
  obtain news where n: "points (spawn_and_connect_midi rnd w h t s) = news"
      "\<forall>q\<in>set news. \<exists>n a b. q = new_Point_midi rnd n a b"
      "length news = 150 \<or> length news = 151"
    using spawn_and_connect_midi_points[of rnd w h t s] assms(1)
    by (auto simp: MIN_ACTIVE_POINTS_def)
  have fresh: "age q = 0 \<and> 60 \<le> lifespan q" if "q \<in> set news" for q
  proof -
    from n(2) that obtain k a b where "q = new_Point_midi rnd k a b" by blast
    then show ?thesis using new_Point_midi_lifespan[of rnd k a b] assms(2) by simp
  qed
  show "\<forall>q\<in>set (points (spawn_and_connect_midi rnd w h t s)). age q = 0"
    and "length (points (spawn_and_connect_midi rnd w h t s)) = 150 \<or>
         length (points (spawn_and_connect_midi rnd w h t s)) = 151"
    using n(1,3) fresh by simp_all
  have "\<not> expired_midi m (aged_midi p w h t)" if "p \<in> set news" for p
    using fresh[OF that] by (simp add: expired_midi_iff)
  then have "\<forall>p\<in>set news. \<not> expired_midi m (aged_midi p w h t)" by blast
  from sweep_midi_prefix[OF this, of "[]"]
  show "points (render_midi rnd m w h t s) =
         map (\<lambda>p. aged_midi p w h t) (points (spawn_and_connect_midi rnd w h t s))"
    unfolding render_midi_sweep n(1) by simp
qed

text \<open>
  C7, amended. A frame that starts from an empty field, in either file, with a generator whose
  numbers are not negative: the top-up leaves exactly 150 points, all of age 0; after the
  whole frame the field has 150 points, or 151 when the occasional new point was added, and
  all of them have the age \<open>1 / fps\<close>.
\<close>

theorem one_frame_from_empty_field:
  assumes "points s = []" "points sm = []" "\<forall>i. 0 \<le> rnd i"
  shows "length (points (top_up rnd w h s)) = 150 \<and>
         (\<forall>p\<in>set (points (top_up rnd w h s)). age p = 0) \<and>
         (length (points (render rnd w h t s)) = 150 \<or>
          length (points (render rnd w h t s)) = 151) \<and>
         (\<forall>p\<in>set (points (render rnd w h t s)). age p = 1 / fps) \<and>
         length (points (top_up_midi rnd w h sm)) = 150 \<and>
         (\<forall>p\<in>set (points (top_up_midi rnd w h sm)). age p = 0) \<and>
         (length (points (render_midi rnd midiOutput w h t sm)) = 150 \<or>
          length (points (render_midi rnd midiOutput w h t sm)) = 151) \<and>
         (\<forall>p\<in>set (points (render_midi rnd midiOutput w h t sm)). age p = 1 / fps)"
proof -
  have t1: "length (points (top_up rnd w h s)) = 150 \<and>
         (\<forall>p\<in>set (points (top_up rnd w h s)). age p = 0)"
    using top_up_points[of rnd w h s] assms(1) by (auto simp: MIN_ACTIVE_POINTS_def)
  have t2: "length (points (top_up_midi rnd w h sm)) = 150 \<and>
         (\<forall>p\<in>set (points (top_up_midi rnd w h sm)). age p = 0)"
    using top_up_midi_points[of rnd w h sm] assms(2) by (auto simp: MIN_ACTIVE_POINTS_def)
  define news where "news = points (spawn_and_connect rnd w h t s)"
  have n: "\<forall>q\<in>set news. age q = 0" "length news = 150 \<or> length news = 151"
     "map age (points (render rnd w h t s)) = map (\<lambda>p. age p + 1 / 60) news"
    unfolding news_def by (rule render_ages[OF assms(1)])+
  have "length (map age (points (render rnd w h t s))) = length news"
    unfolding n(3) by simp
  then have r1: "length (points (render rnd w h t s)) = 150 \<or>
          length (points (render rnd w h t s)) = 151" using n(2) by simp
  have "set (map age (points (render rnd w h t s))) \<subseteq> {1 / 60}"
    unfolding n(3) using n(1) by auto
  then have r2: "\<forall>p\<in>set (points (render rnd w h t s)). age p = 1 / fps"
    by (auto simp: fps_def)
  define newsm where "newsm = points (spawn_and_connect_midi rnd w h t sm)"
  have m: "\<forall>q\<in>set newsm. age q = 0" "length newsm = 150 \<or> length newsm = 151"
     "points (render_midi rnd midiOutput w h t sm) = map (\<lambda>p. aged_midi p w h t) newsm"
    unfolding newsm_def by (rule render_midi_ages[OF assms(2,3)])+
  have r3: "length (points (render_midi rnd midiOutput w h t sm)) = 150 \<or>
          length (points (render_midi rnd midiOutput w h t sm)) = 151"
    unfolding m(3) using m(2) by simp
  have r4: "\<forall>p\<in>set (points (render_midi rnd midiOutput w h t sm)). age p = 1 / fps"
    unfolding m(3) using m(1) by (auto simp: fps_def)
  show ?thesis using t1 t2 r1 r2 r3 r4 by (intro conjI) blast+
qed

theorem one_frame_from_empty_field_witness:
  "points empty_field = [] \<and> points empty_field_midi = [] \<and> (\<forall>i. 0 \<le> rnd0 i) \<and>
   length (points (top_up rnd0 1080 1350 empty_field)) = 150 \<and>
   age (hd (points (top_up rnd0 1080 1350 empty_field))) = 0 \<and>
   (length (points (render rnd0 1080 1350 0 empty_field)) = 150 \<or>
    length (points (render rnd0 1080 1350 0 empty_field)) = 151) \<and>
   age (hd (points (render rnd0 1080 1350 0 empty_field))) = 1 / fps \<and>
   (length (points (render_midi rnd0 True 1080 1350 0 empty_field_midi)) = 150 \<or>
    length (points (render_midi rnd0 True 1080 1350 0 empty_field_midi)) = 151) \<and>
   age (hd (points (render_midi rnd0 True 1080 1350 0 empty_field_midi))) = 1 / fps"
proof -
  have h1: "points empty_field = []" by (simp add: empty_field_def)
  have h2: "points empty_field_midi = []" by (simp add: empty_field_midi_def)
  have h3: "\<forall>i. 0 \<le> rnd0 i" by (simp add: rnd0_def)
  note t = one_frame_from_empty_field[OF h1 h2 h3, of 1080 1350 0 True]
  have first: "age (hd xs) = a"
    if "length xs = 150 \<or> length xs = 151" "\<forall>p\<in>set xs. age p = a"
    for xs :: "'a point_scheme list" and a
    using that by (cases xs) auto
  have c1: "length (points (top_up rnd0 1080 1350 empty_field)) = 150"
    and c2: "age (hd (points (top_up rnd0 1080 1350 empty_field))) = 0"
    using t first[of "points (top_up rnd0 1080 1350 empty_field)" 0] by simp_all
  have c3: "length (points (render rnd0 1080 1350 0 empty_field)) = 150 \<or>
      length (points (render rnd0 1080 1350 0 empty_field)) = 151"
    using t by blast
  have c4: "age (hd (points (render rnd0 1080 1350 0 empty_field))) = 1 / fps"
    using t first[OF c3, of "1 / fps"] by blast
  have c5: "length (points (render_midi rnd0 True 1080 1350 0 empty_field_midi)) = 150 \<or>
      length (points (render_midi rnd0 True 1080 1350 0 empty_field_midi)) = 151"
    using t by blast
  have c6: "age (hd (points (render_midi rnd0 True 1080 1350 0 empty_field_midi))) = 1 / fps"
    using t first[OF c5, of "1 / fps"] by blast
  show ?thesis using h1 h2 h3 c1 c2 c3 c4 c5 c6 by (intro conjI)
qed

text \<open>
  C7, as stated. "After one frame from an empty field there are exactly 150 points, all of
  age 0." With the generator that returns 0, one frame of sketch-03.js leaves 151 points, and
  the first has the age \<open>1 / 60\<close>.
\<close>

theorem one_frame_from_empty_field_counterexample:
  "length (points (render rnd0 1080 1350 0 empty_field)) = 151 \<and>
   age (hd (points (render rnd0 1080 1350 0 empty_field))) = 1 / 60"
proof -
  have e: "points empty_field = []" by (simp add: empty_field_def)
  obtain news where n: "points (spawn_and_connect rnd0 1080 1350 0 empty_field) = news"
     "\<forall>q\<in>set news. age q = 0" "length news = 151"
    using spawn_and_connect_points[of rnd0 1080 1350 0 empty_field] e
    by (auto simp: MIN_ACTIVE_POINTS_def rnd0_def random_chance_def THOUGHTS_PER_SECOND_def)
  have "\<forall>p\<in>set news. age p + 1 / 60 < POINT_LIFESPAN"
    using n(2) by (simp add: POINT_LIFESPAN_def)
  then have m: "map age (points (render rnd0 1080 1350 0 empty_field)) = map (\<lambda>p. age p + 1 / 60) news"
    unfolding render_sweep n(1) by (rule sweep_ages)
  have "length (map age (points (render rnd0 1080 1350 0 empty_field))) = 151"
    unfolding m using n(3) by simp
  then have l: "length (points (render rnd0 1080 1350 0 empty_field)) = 151" by simp
  then have ne: "points (render rnd0 1080 1350 0 empty_field) \<noteq> []" by auto
  have "news \<noteq> []" using n(3) by auto
  then have "hd (map (\<lambda>p. age p + 1 / 60) news) = 1 / 60"
    using n(2) by (cases news) auto
  then have "age (hd (points (render rnd0 1080 1350 0 empty_field))) = 1 / 60"
    using m ne by (simp add: hd_map[symmetric])
  then show ?thesis using l by simp
qed

subsection \<open>Lines on the canvas\<close>

lemma getDistance_euclid:
  "getDistance u v = sqrt ((coord_x u - coord_x v)\<^sup>2 + (coord_y u - coord_y v)\<^sup>2)"
  by (simp add: getDistance_def Let_def power2_eq_square)

lemma push_Point_canvas [simp]: "canvas (push_Point rnd w h s) = canvas s"
  by (simp add: push_Point_def Let_def)

lemma top_up_canvas [simp]: "canvas (top_up rnd w h s) = canvas s"
  by (induction rnd w h s rule: top_up.induct)
     (subst top_up.simps, simp)

lemma push_Point_midi_canvas [simp]: "canvas (push_Point_midi rnd w h s) = canvas s"
  by (simp add: push_Point_midi_def Let_def)

lemma top_up_midi_canvas [simp]: "canvas (top_up_midi rnd w h s) = canvas s"
  by (induction rnd w h s rule: top_up_midi.induct)
     (subst top_up_midi.simps, simp)

lemma spawn_and_connect_canvas:
  "canvas (spawn_and_connect rnd w h t s) =
     canvas s @ FillRect ''rgba(1, 1, 1, 0.1)'' 0 0 w h #
       connections (points (spawn_and_connect rnd w h t s)) (dynamicThreshold t)"
  by (simp add: spawn_and_connect_def Let_def)

lemma spawn_and_connect_midi_canvas:
  "canvas (spawn_and_connect_midi rnd w h t s) =
     canvas s @ FillRect ''rgba(10, 2, 2, 0.2)'' 0 0 w h #
       connections (points (spawn_and_connect_midi rnd w h t s)) (dynamicThreshold t)"
  by (simp add: spawn_and_connect_midi_def Let_def)

lemma callback_canvas:
  "canvas (callback rnd w h t p k s) = canvas s @ [draw_point (update rnd (seed s) p w h t)]"
  by (simp add: callback_def Let_def)

lemma callback_midi_canvas:
  "canvas (callback_midi m w h t p k s) = canvas s @ [draw_point_midi (update_midi p w h t)]"
  by (simp add: callback_midi_def Let_def)

text \<open>The pass over the points only adds discs to the canvas.\<close>

lemma render_canvas:
  "\<exists>circles. canvas (render rnd w h t s) = canvas (spawn_and_connect rnd w h t s) @ circles \<and>
             (\<forall>c\<in>set circles. \<exists>a q r. c = Circle a q r)"
proof -
  define base where "base = canvas (spawn_and_connect rnd w h t s)"
  define P where "P = (\<lambda>u::point_03 field. \<exists>circles. canvas u = base @ circles \<and>
      (\<forall>c\<in>set circles. \<exists>a q r. c = Circle a q r))"
  have P0: "P (spawn_and_connect rnd w h t s)" unfolding P_def base_def by simp
  have step: "P (callback rnd w h t (points u ! k) k u)" if "P u" for u k
  proof -
    from that obtain circles where c: "canvas u = base @ circles"
      "\<forall>c\<in>set circles. \<exists>a q r. c = Circle a q r" unfolding P_def by blast
    define d where "d = draw_point (update rnd (seed u) (points u ! k) w h t)"
    have "\<exists>a q r. d = Circle a q r" unfolding d_def draw_point_def by blast
    then have "\<forall>c\<in>set (circles @ [d]). \<exists>a q r. c = Circle a q r" using c(2) by auto
    moreover have "canvas (callback rnd w h t (points u ! k) k u) = base @ (circles @ [d])"
      unfolding callback_canvas c(1) d_def by simp
    ultimately show ?thesis unfolding P_def by blast
  qed
  have "P (forEach (callback rnd w h t) (spawn_and_connect rnd w h t s))"
    by (rule forEach_invariant[where P = P, OF P0]) (rule step)
  then show ?thesis unfolding render_def P_def base_def .
qed

lemma render_midi_canvas:
  "\<exists>circles. canvas (render_midi rnd m w h t s) =
               canvas (spawn_and_connect_midi rnd w h t s) @ circles \<and>
             (\<forall>c\<in>set circles. \<exists>a q r. c = Circle a q r)"
proof -
  define base where "base = canvas (spawn_and_connect_midi rnd w h t s)"
  define P where "P = (\<lambda>u::point_midi field_midi. \<exists>circles. canvas u = base @ circles \<and>
      (\<forall>c\<in>set circles. \<exists>a q r. c = Circle a q r))"
  have P0: "P (spawn_and_connect_midi rnd w h t s)" unfolding P_def base_def by simp
  have step: "P (callback_midi m w h t (points u ! k) k u)" if "P u" for u k
  proof -
    from that obtain circles where c: "canvas u = base @ circles"
      "\<forall>c\<in>set circles. \<exists>a q r. c = Circle a q r" unfolding P_def by blast
    define d where "d = draw_point_midi (update_midi (points u ! k) w h t)"
    have "\<exists>a q r. d = Circle a q r" unfolding d_def draw_point_midi_def by blast
    then have "\<forall>c\<in>set (circles @ [d]). \<exists>a q r. c = Circle a q r" using c(2) by auto
    moreover have "canvas (callback_midi m w h t (points u ! k) k u) = base @ (circles @ [d])"
      unfolding callback_midi_canvas c(1) d_def by simp
    ultimately show ?thesis unfolding P_def by blast
  qed
  have "P (forEach (callback_midi m w h t) (spawn_and_connect_midi rnd w h t s))"
    by (rule forEach_invariant[where P = P, OF P0]) (rule step)
  then show ?thesis unfolding render_midi_def P_def base_def .
qed

text \<open>The lines among what a frame draws: a rectangle, the connections, discs.\<close>

lemma strokes_of_frame:
  fixes ps :: "'a point_scheme list"
  assumes "drawn = FillRect c 0 0 w h # connections ps thr @ circles"
    and "\<forall>c\<in>set circles. \<exists>a q r. c = Circle a q r"
    and "0 < thr" "i < j" "j < length ps"
    and "d = sqrt ((coord_x (pos (ps ! i)) - coord_x (pos (ps ! j)))\<^sup>2 +
                   (coord_y (pos (ps ! i)) - coord_y (pos (ps ! j)))\<^sup>2)"
  shows "(d > thr \<longrightarrow> (\<forall>alpha lineWidth.
            Stroke alpha lineWidth (pos (ps ! i)) (pos (ps ! j)) \<notin> set drawn)) \<and>
         (d \<le> thr \<longrightarrow>
            Stroke (0.6 - 0.6 * d / thr) (1.5 - d / thr) (pos (ps ! i)) (pos (ps ! j)) \<in> set drawn)"
proof -
  have d: "d = getDistance (pos (ps ! i)) (pos (ps ! j))"
    unfolding assms(6) getDistance_euclid ..
  have mem: "Stroke a l u v \<in> set drawn \<longleftrightarrow> Stroke a l u v \<in> set (connections ps thr)" for a l u v
    unfolding assms(1) using assms(2) by auto
  have far: "Stroke alpha lineWidth (pos (ps ! i)) (pos (ps ! j)) \<notin> set (connections ps thr)"
    if "d > thr" for alpha lineWidth
  proof
    assume "Stroke alpha lineWidth (pos (ps ! i)) (pos (ps ! j)) \<in> set (connections ps thr)"
    then obtain k l where kl: "connection (ps ! k) (ps ! l) thr
        = Some (Stroke alpha lineWidth (pos (ps ! i)) (pos (ps ! j)))"
      unfolding connections_set by blast
    then have "pos (ps ! k) = pos (ps ! i)" "pos (ps ! l) = pos (ps ! j)"
      and "\<not> getDistance (pos (ps ! k)) (pos (ps ! l)) > thr"
      unfolding connection_eq[OF assms(3)] by (auto split: if_splits)
    then show False using that unfolding d by simp
  qed
  have near: "Stroke (0.6 - 0.6 * d / thr) (1.5 - d / thr) (pos (ps ! i)) (pos (ps ! j))
      \<in> set (connections ps thr)" if "d \<le> thr"
  proof -
    have "connection (ps ! i) (ps ! j) thr =
        Some (Stroke (0.6 - 0.6 * d / thr) (1.5 - d / thr) (pos (ps ! i)) (pos (ps ! j)))"
      unfolding connection_eq[OF assms(3)] d using that unfolding d by simp
    then show ?thesis unfolding connections_set using assms(4,5) by blast
  qed
  show ?thesis unfolding mem using far near by blast
qed

lemma frame_drawn:
  "\<exists>circles. drop (length (canvas s)) (canvas (render rnd w h t s)) =
      FillRect ''rgba(1, 1, 1, 0.1)'' 0 0 w h #
        connections (points (spawn_and_connect rnd w h t s)) (dynamicThreshold t) @ circles \<and>
      (\<forall>c\<in>set circles. \<exists>a q r. c = Circle a q r)"
proof -
  obtain circles where c: "canvas (render rnd w h t s) = canvas (spawn_and_connect rnd w h t s) @ circles"
    "\<forall>c\<in>set circles. \<exists>a q r. c = Circle a q r"
    using render_canvas[of rnd w h t s] by blast
  have "drop (length (canvas s)) (canvas (render rnd w h t s)) =
      FillRect ''rgba(1, 1, 1, 0.1)'' 0 0 w h #
        connections (points (spawn_and_connect rnd w h t s)) (dynamicThreshold t) @ circles"
    unfolding c(1) spawn_and_connect_canvas by simp
  then show ?thesis using c(2) by blast
qed

lemma frame_drawn_midi:
  "\<exists>circles. drop (length (canvas s)) (canvas (render_midi rnd m w h t s)) =
      FillRect ''rgba(10, 2, 2, 0.2)'' 0 0 w h #
        connections (points (spawn_and_connect_midi rnd w h t s)) (dynamicThreshold t) @ circles \<and>
      (\<forall>c\<in>set circles. \<exists>a q r. c = Circle a q r)"
proof -
  obtain circles where c: "canvas (render_midi rnd m w h t s) =
      canvas (spawn_and_connect_midi rnd w h t s) @ circles"
    "\<forall>c\<in>set circles. \<exists>a q r. c = Circle a q r"
    using render_midi_canvas[of rnd m w h t s] by blast
  have "drop (length (canvas s)) (canvas (render_midi rnd m w h t s)) =
      FillRect ''rgba(10, 2, 2, 0.2)'' 0 0 w h #
        connections (points (spawn_and_connect_midi rnd w h t s)) (dynamicThreshold t) @ circles"
    unfolding c(1) spawn_and_connect_midi_canvas by simp
  then show ?thesis using c(2) by blast
qed

text \<open>
  C9. In a frame of either program, for two points \<open>p1\<close>, \<open>p2\<close> of the field (as it is
  when the connections are drawn) at the Euclidean distance \<open>d\<close>, and for what the frame adds
  to the canvas: if \<open>d\<close> exceeds the threshold \<open>dynamicThreshold time\<close>, no line from \<open>p1\<close> to
  \<open>p2\<close> is drawn; otherwise the line from \<open>p1\<close> to \<open>p2\<close> is drawn with the opacity
  \<open>0.6 - 0.6 * d / threshold\<close> and the width \<open>1.5 - d / threshold\<close>, the linear
  interpolations that give 0.6 and 1.5 at \<open>d = 0\<close> and 0 and 0.5 at \<open>d = threshold\<close>.
\<close>

theorem connections_drawn:
  assumes "i < j" "j < length (points (spawn_and_connect rnd width height time s))"
    and "k < l" "l < length (points (spawn_and_connect_midi rnd' width height time sm))"
  shows
    "(let ps = points (spawn_and_connect rnd width height time s);
          p1 = ps ! i; p2 = ps ! j;
          d = sqrt ((coord_x (pos p1) - coord_x (pos p2))\<^sup>2 +
                    (coord_y (pos p1) - coord_y (pos p2))\<^sup>2);
          threshold = dynamicThreshold time;
          edge = Stroke (0.6 - 0.6 * d / threshold) (1.5 - d / threshold) (pos p1) (pos p2);
          drawn = drop (length (canvas s)) (canvas (render rnd width height time s))
      in (d > threshold \<longrightarrow>
            (\<forall>alpha lineWidth. Stroke alpha lineWidth (pos p1) (pos p2) \<notin> set drawn)) \<and>
         (d \<le> threshold \<longrightarrow> edge \<in> set drawn) \<and>
         (d = 0 \<longrightarrow> edge = Stroke 0.6 1.5 (pos p1) (pos p2)) \<and>
         (d = threshold \<longrightarrow> edge = Stroke 0 0.5 (pos p1) (pos p2))) \<and>
     (let ps = points (spawn_and_connect_midi rnd' width height time sm);
          p1 = ps ! k; p2 = ps ! l;
          d = sqrt ((coord_x (pos p1) - coord_x (pos p2))\<^sup>2 +
                    (coord_y (pos p1) - coord_y (pos p2))\<^sup>2);
          threshold = dynamicThreshold time;
          edge = Stroke (0.6 - 0.6 * d / threshold) (1.5 - d / threshold) (pos p1) (pos p2);
          drawn = drop (length (canvas sm)) (canvas (render_midi rnd' midiOutput width height time sm))
      in (d > threshold \<longrightarrow>
            (\<forall>alpha lineWidth. Stroke alpha lineWidth (pos p1) (pos p2) \<notin> set drawn)) \<and>
         (d \<le> threshold \<longrightarrow> edge \<in> set drawn) \<and>
         (d = 0 \<longrightarrow> edge = Stroke 0.6 1.5 (pos p1) (pos p2)) \<and>
         (d = threshold \<longrightarrow> edge = Stroke 0 0.5 (pos p1) (pos p2)))"
proof -
  define thr where "thr = dynamicThreshold time"
  have thr: "0 < thr" unfolding thr_def by (rule dynamicThreshold_pos)
  have ends: "(d = 0 \<longrightarrow> Stroke (0.6 - 0.6 * d / thr) (1.5 - d / thr) u v = Stroke 0.6 1.5 u v) \<and>
      (d = thr \<longrightarrow> Stroke (0.6 - 0.6 * d / thr) (1.5 - d / thr) u v = Stroke 0 0.5 u v)"
    for d u v using thr by simp
  obtain circles where c: "drop (length (canvas s)) (canvas (render rnd width height time s)) =
      FillRect ''rgba(1, 1, 1, 0.1)'' 0 0 width height #
        connections (points (spawn_and_connect rnd width height time s)) thr @ circles"
      "\<forall>c\<in>set circles. \<exists>a q r. c = Circle a q r"
    using frame_drawn[of s rnd width height time] unfolding thr_def by blast
  obtain circlesm where cm: "drop (length (canvas sm)) (canvas (render_midi rnd' midiOutput width height time sm)) =
      FillRect ''rgba(10, 2, 2, 0.2)'' 0 0 width height #
        connections (points (spawn_and_connect_midi rnd' width height time sm)) thr @ circlesm"
      "\<forall>c\<in>set circlesm. \<exists>a q r. c = Circle a q r"
    using frame_drawn_midi[of sm rnd' midiOutput width height time] unfolding thr_def by blast
  note a = strokes_of_frame[OF c(1) c(2) thr assms(1,2) refl]
  note b = strokes_of_frame[OF cm(1) cm(2) thr assms(3,4) refl]
  show ?thesis
    unfolding Let_def thr_def[symmetric]
    using a b ends by (intro conjI) blast+
qed

lemma sqrt_25: "sqrt 25 = 5"
  by (rule real_sqrt_unique) simp_all

theorem connections_drawn_witness:
  "(0::nat) < 1 \<and> 1 < length (points (spawn_and_connect rnd0 1080 1350 0 near_field)) \<and>
   1 < length (points (spawn_and_connect_midi rnd0 1080 1350 0 near_field_midi)) \<and>
   Stroke 0.576 1.46 (Vector 0 0) (Vector 3 4)
     \<in> set (drop (length (canvas near_field)) (canvas (render rnd0 1080 1350 0 near_field))) \<and>
   Stroke 0.576 1.46 (Vector 0 0) (Vector 3 4)
     \<in> set (drop (length (canvas near_field_midi))
              (canvas (render_midi rnd0 True 1080 1350 0 near_field_midi)))"
proof -
  have i: "(0::nat) < 1" by simp
  obtain news where n: "points (spawn_and_connect rnd0 1080 1350 0 near_field)
      = points near_field @ news"
    using spawn_and_connect_points[of rnd0 1080 1350 0 near_field] by blast
  obtain newsm where m: "points (spawn_and_connect_midi rnd0 1080 1350 0 near_field_midi)
      = points near_field_midi @ newsm"
    using spawn_and_connect_midi_points[of rnd0 1080 1350 0 near_field_midi] by blast
  have j: "1 < length (points (spawn_and_connect rnd0 1080 1350 0 near_field))"
    unfolding n by (simp add: near_field_def)
  have l: "1 < length (points (spawn_and_connect_midi rnd0 1080 1350 0 near_field_midi))"
    unfolding m by (simp add: near_field_midi_def)
  have p: "pos (points (spawn_and_connect rnd0 1080 1350 0 near_field) ! 0) = Vector 0 0"
    "pos (points (spawn_and_connect rnd0 1080 1350 0 near_field) ! 1) = Vector 3 4"
    unfolding n by (simp_all add: near_field_def)
  have q: "pos (points (spawn_and_connect_midi rnd0 1080 1350 0 near_field_midi) ! 0) = Vector 0 0"
    "pos (points (spawn_and_connect_midi rnd0 1080 1350 0 near_field_midi) ! 1) = Vector 3 4"
    unfolding m by (simp_all add: near_field_midi_def)
  have thr: "dynamicThreshold 0 = 125" by (simp add: dynamicThreshold_eq)
  have d: "sqrt ((coord_x (Vector 0 0) - coord_x (Vector 3 4))\<^sup>2 +
                 (coord_y (Vector 0 0) - coord_y (Vector 3 4))\<^sup>2) = 5"
    by (simp add: Vector_def sqrt_25)
  note t = connections_drawn[OF i j i l, of True]
  have c1: "Stroke 0.576 1.46 (Vector 0 0) (Vector 3 4)
     \<in> set (drop (length (canvas near_field)) (canvas (render rnd0 1080 1350 0 near_field)))"
    using t unfolding Let_def p q thr d by simp
  have c2: "Stroke 0.576 1.46 (Vector 0 0) (Vector 3 4)
     \<in> set (drop (length (canvas near_field_midi))
              (canvas (render_midi rnd0 True 1080 1350 0 near_field_midi)))"
    using t unfolding Let_def p q thr d by simp
  show ?thesis using i j l c1 c2 by (intro conjI)
qed

subsection \<open>The point behind a removed one\<close>

lemma render_skip_nonempty:
  assumes "points s = a # b # rest" "POINT_LIFESPAN \<le> age a + 1 / 60"
  shows "points (render rnd w h t s) \<noteq> []"
proof -
  obtain news where n: "points (spawn_and_connect rnd w h t s) = a # b # (rest @ news)"
    using spawn_and_connect_points[of rnd w h t s] assms(1) by auto
  show ?thesis unfolding render_sweep n using assms(2) by simp
qed

lemma render_midi_skip_nonempty:
  assumes "points s = a # b # rest" "expired_midi m (aged_midi a w h t)"
  shows "points (render_midi rnd m w h t s) \<noteq> []"
proof -
  obtain news where n: "points (spawn_and_connect_midi rnd w h t s) = a # b # (rest @ news)"
    using spawn_and_connect_midi_points[of rnd w h t s] assms(1) by auto
  show ?thesis unfolding render_midi_sweep n using assms(2) by simp
qed

text \<open>
  C3. "The pass skips no point, even when other points are removed during it." In
  sketch-03.js, whenever the first point of the field reaches \<^verbatim>\<open>POINT_LIFESPAN\<close> in a
  frame, the point that stood second is first after the frame and is exactly what it was
  before: the callback, which ages every point it is called on, was not called on it, so the
  frame has neither updated nor drawn nor aged it.
\<close>

theorem second_point_skipped:
  assumes "points s = a # b # rest" "POINT_LIFESPAN \<le> age a + 1 / fps"
  shows "points (render rnd width height time s) \<noteq> [] \<and>
         points (render rnd width height time s) ! 0 = b"
proof -
  have due: "POINT_LIFESPAN \<le> age a + 1 / 60" using assms(2) by (simp add: fps_def)
  show ?thesis
    using render_skip[OF assms(1) due, of rnd width height time]
      render_skip_nonempty[OF assms(1) due, of rnd width height time] by simp
qed

theorem second_point_skipped_witness:
  "points due_field = due_point # young_point # [] \<and>
   POINT_LIFESPAN \<le> age due_point + 1 / fps \<and>
   age due_point < POINT_LIFESPAN \<and>
   points (render rnd0 1080 1350 0 due_field) \<noteq> [] \<and>
   points (render rnd0 1080 1350 0 due_field) ! 0 = young_point"
proof -
  have h1: "points due_field = due_point # young_point # []" by (simp add: due_field_def)
  have h2: "POINT_LIFESPAN \<le> age due_point + 1 / fps"
    by (simp add: due_point_def POINT_LIFESPAN_def fps_def)
  have h3: "age due_point < POINT_LIFESPAN" by (simp add: due_point_def POINT_LIFESPAN_def)
  note t = second_point_skipped[OF h1 h2, of rnd0 1080 1350 0]
  show ?thesis using h1 h2 h3 t by (intro conjI) simp_all
qed

text \<open>
  C6. "A point that survives a frame is older by \<open>1 / fps\<close> after it." In the MIDI variant
  with an output, whenever the first point of the field reaches its lifespan in a frame, the
  point that stood second is in the field after the frame, first, and its age is what it was
  before the frame, not that plus \<open>1 / fps\<close>.
\<close>

theorem survivor_not_aged:
  assumes "points s = a # b # rest" "lifespan a \<le> age a + 1 / fps"
  shows "points (render_midi rnd True width height time s) \<noteq> [] \<and>
         points (render_midi rnd True width height time s) ! 0 = b \<and>
         age (points (render_midi rnd True width height time s) ! 0) \<noteq> age b + 1 / fps"
proof -
  have due: "expired_midi True (aged_midi a width height time)"
    using assms(2) by (simp add: expired_midi_iff fps_def)
  have "points (render_midi rnd True width height time s) ! 0 = b"
    by (rule render_midi_skip[OF assms(1) due])
  moreover have "points (render_midi rnd True width height time s) \<noteq> []"
    by (rule render_midi_skip_nonempty[OF assms(1) due])
  ultimately show ?thesis by (simp add: fps_def)
qed

theorem survivor_not_aged_witness:
  "points due_field_midi = due_point_midi # young_point_midi # [] \<and>
   lifespan due_point_midi \<le> age due_point_midi + 1 / fps \<and>
   age due_point_midi < lifespan due_point_midi \<and>
   points (render_midi rnd0 True 1080 1350 0 due_field_midi) ! 0 = young_point_midi \<and>
   age (points (render_midi rnd0 True 1080 1350 0 due_field_midi) ! 0) = 1"
proof -
  have h1: "points due_field_midi = due_point_midi # young_point_midi # []"
    by (simp add: due_field_midi_def)
  have h2: "lifespan due_point_midi \<le> age due_point_midi + 1 / fps"
    by (simp add: due_point_midi_def fps_def)
  have h3: "age due_point_midi < lifespan due_point_midi" by (simp add: due_point_midi_def)
  note t = survivor_not_aged[OF h1 h2, of rnd0 1080 1350 0]
  have c1: "points (render_midi rnd0 True 1080 1350 0 due_field_midi) ! 0 = young_point_midi"
    using t by simp
  have c2: "age (points (render_midi rnd0 True 1080 1350 0 due_field_midi) ! 0) = 1"
    unfolding c1 by (simp add: young_point_midi_def)
  show ?thesis using h1 h2 h3 c1 c2 by (intro conjI)
qed

subsection \<open>Runs of the MIDI variant\<close>

text \<open>
  C1. "A point is removed in a frame if and only if its age has reached its lifespan at the
  end of that frame, whether or not a MIDI output is there." In the MIDI variant the
  removal stands under \<^verbatim>\<open>&& midiOutput\<close>: started with the generator that returns 0
  and never given an output, the run still holds its first point after 3601 frames, with the
  lifespan 60 and an age beyond 60.
\<close>

theorem silent_run_keeps_expired:
  "points (silent_run 3601) \<noteq> [] \<and> lifespan (hd (points (silent_run 3601))) = 60 \<and>
   60 < age (hd (points (silent_run 3601)))"
proof -
  have "\<forall>i<3601. \<not> expired_midi (midi_off i) (drift_midi 1080 1350 clock (Suc i) first_point)"
    by (simp add: expired_midi_iff midi_off_def)
  from run_first_point[OF this] show ?thesis
    unfolding silent_run_def by auto
qed

subsection \<open>The run with the generator that returns \<open>1 / 16384\<close>\<close>

lemma first_point1_eq:
  "first_point1 = \<lparr>pos = Vector (135 / 2048) (675 / 8192),
                    vel = Vector (- (8191 / 40960)) (- (8191 / 40960)),
                    radius = 3, age = 0, lifespan = 122895 / 2048\<rparr>"
  by (simp add: first_point1_def new_Point_midi_def rnd1_def random_range_def
      POINT_LIFESPAN_MIN_def POINT_LIFESPAN_MAX_def)

lemma first_point1_fields [simp]: "age first_point1 = 0" "lifespan first_point1 = 122895 / 2048"
  by (simp_all add: first_point1_eq)

lemma rnd1_nonneg: "\<forall>i. 0 \<le> rnd1 i"
  by (simp add: rnd1_def)

lemma push_Point_midi_rnd1:
  "points (push_Point_midi rnd1 1080 1350 s) = points s @ [first_point1]"
  by (simp add: push_Point_midi_points first_point1_def new_Point_midi_def rnd1_def random_range_def)

lemma initial_points_midi_rnd1:
  "points (initial_points_midi rnd1 1080 1350 i s) = points s @ replicate i first_point1"
proof (induction i arbitrary: s)
  case 0
  show ?case by simp
next
  case (Suc i)
  show ?case
    unfolding initial_points_midi.simps Suc push_Point_midi_rnd1
    by (simp add: replicate_app_Cons_same)
qed

lemma sketch_midi_rnd1: "points (sketch_midi rnd1 1080 1350) = replicate 300 first_point1"
  by (simp add: sketch_midi_def INITIAL_POINTS_midi_def initial_points_midi_rnd1)

lemma sketch_midi_rnd1_first:
  "points (sketch_midi rnd1 1080 1350) = first_point1 # replicate 299 first_point1"
proof -
  have "(300::nat) = Suc 299" by simp
  then show ?thesis unfolding sketch_midi_rnd1 by (simp only: replicate_Suc)
qed

lemma spawn_and_connect_midi_rnd1:
  assumes "MIN_ACTIVE_POINTS \<le> length (points s)"
  shows "points (spawn_and_connect_midi rnd1 1080 1350 t s) = points s @ [first_point1]"
proof -
  define s0 where "s0 = s\<lparr>canvas := canvas s @ [FillRect ''rgba(10, 2, 2, 0.2)'' 0 0 1080 1350]\<rparr>"
  have top: "top_up_midi rnd1 1080 1350 s0 = s0"
    using assms unfolding s0_def by (subst top_up_midi.simps) simp
  have ch: "random_chance (rnd1 i) (THOUGHTS_PER_SECOND_midi / 60)" for i
    by (simp add: random_chance_def rnd1_def THOUGHTS_PER_SECOND_midi_def)
  show ?thesis
    unfolding spawn_and_connect_midi_def Let_def s0_def[symmetric] top
    using ch by (simp add: push_Point_midi_rnd1 s0_def)
qed

text \<open>In the first 3600 frames of the run nothing is removed: every frame adds one point.\<close>

lemma run_with_output_grows:
  "n \<le> 3600 \<Longrightarrow> length (points (run_with_output n)) = 300 + n \<and>
     (\<forall>q\<in>set (points (run_with_output n)). lifespan q = 122895 / 2048 \<and> age q \<le> real n / 60)"
proof (induction n)
  case 0
  show ?case unfolding run_with_output_def by (simp add: sketch_midi_rnd1)
next
  case (Suc n)
  define s where "s = run_with_output n"
  have IH: "length (points s) = 300 + n"
    "\<forall>q\<in>set (points s). lifespan q = 122895 / 2048 \<and> age q \<le> real n / 60"
    using Suc unfolding s_def by simp_all
  have step: "run_with_output (Suc n) = render_midi rnd1 (midi_on n) 1080 1350 (clock n) s"
    unfolding run_with_output_def s_def by simp
  have "MIN_ACTIVE_POINTS \<le> length (points s)" using IH(1) by (simp add: MIN_ACTIVE_POINTS_def)
  then have prep: "points (spawn_and_connect_midi rnd1 1080 1350 (clock n) s) = points s @ [first_point1]"
    by (rule spawn_and_connect_midi_rnd1)
  have all: "\<forall>q\<in>set (points s @ [first_point1]). lifespan q = 122895 / 2048 \<and> age q \<le> real n / 60"
    using IH(2) by simp
  have "real n + 1 \<le> 3600" using Suc.prems by simp
  then have young: "\<not> expired_midi (midi_on n) (aged_midi q 1080 1350 (clock n))"
    if "q \<in> set (points s @ [first_point1])" for q
    using all that by (auto simp: expired_midi_iff)
  then have "\<forall>q\<in>set (points s @ [first_point1]).
      \<not> expired_midi (midi_on n) (aged_midi q 1080 1350 (clock n))" by blast
  from sweep_midi_prefix[OF this, of "[]"]
  have pts: "points (run_with_output (Suc n)) =
      map (\<lambda>p. aged_midi p 1080 1350 (clock n)) (points s @ [first_point1])"
    unfolding step render_midi_sweep prep by simp
  have l: "length (points (run_with_output (Suc n))) = 300 + Suc n"
    unfolding pts using IH(1) by simp
  have a: "\<forall>q\<in>set (points (run_with_output (Suc n))).
      lifespan q = 122895 / 2048 \<and> age q \<le> real (Suc n) / 60"
    unfolding pts using all by (auto simp: field_simps)
  show ?case using l a by blast
qed

lemma drift_first_point1:
  "n \<le> 5000 \<Longrightarrow> drift_midi 1080 1350 time (Suc n) first_point1 =
     \<lparr>pos = Vector (1080 - real n * (8191 / 40960)) (1350 - real n * (8191 / 40960)),
      vel = Vector (- (8191 / 40960)) (- (8191 / 40960)),
      radius = 3, age = real (Suc n) / 60, lifespan = 122895 / 2048\<rparr>"
proof (induction n)
  case 0
  show ?case
    by (simp add: first_point1_eq aged_midi_def update_midi_def wrap_def Let_def Vector_def fps_def)
next
  case (Suc n)
  then have IH: "drift_midi 1080 1350 time (Suc n) first_point1 =
     \<lparr>pos = Vector (1080 - real n * (8191 / 40960)) (1350 - real n * (8191 / 40960)),
      vel = Vector (- (8191 / 40960)) (- (8191 / 40960)),
      radius = 3, age = real (Suc n) / 60, lifespan = 122895 / 2048\<rparr>" by simp
  have "real n < 5000" using Suc.prems by simp
  then show ?case
    unfolding drift_midi.simps(2)[of _ _ _ "Suc n"] IH
    by (simp add: aged_midi_def update_midi_def wrap_def Let_def Vector_def fps_def field_simps)
qed

text \<open>
  C2. "The points after any number of frames are the same with and without a MIDI output."
  From the same start, with the same generator and the same times, the points after 3601
  frames differ between the run that has an output and the run that has none.
\<close>

theorem runs_with_and_without_output_differ:
  "points (run_with_output 3601) \<noteq> points (run_without_output 3601)"
proof
  assume eq: "points (run_with_output 3601) = points (run_without_output 3601)"
  have "\<forall>q\<in>set (points (sketch_midi rnd1 1080 1350)). age q < lifespan q"
    unfolding sketch_midi_rnd1 by simp
  then have alive: "\<forall>q\<in>set (points (run_with_output 3601)). age q < lifespan q"
    unfolding run_with_output_def
    by (intro frames_midi_alive rnd1_nonneg) (simp_all add: midi_on_def)
  have "\<forall>i<3601. \<not> expired_midi (midi_off i) (drift_midi 1080 1350 clock (Suc i) first_point1)"
    by (simp add: expired_midi_iff midi_off_def)
  from frames_midi_first[OF sketch_midi_rnd1_first this, of rnd1]
  have "drift_midi 1080 1350 clock 3601 first_point1 \<in> set (points (run_without_output 3601))"
    unfolding run_without_output_def by auto
  then have "drift_midi 1080 1350 clock 3601 first_point1 \<in> set (points (run_with_output 3601))"
    unfolding eq .
  with alive have "age (drift_midi 1080 1350 clock 3601 first_point1)
      < lifespan (drift_midi 1080 1350 clock 3601 first_point1)"
    by blast
  then show False by simp
qed

text \<open>
  C5. "The note-off carries the note number of the note-on that was sent when the point was
  created." In the run with an output, the first message of frame 1 is the note-on of the
  first point, \<open>[144, 72, 100]\<close>; nothing is removed in the first 3600 frames (there are
  \<open>300 + 3600\<close> points after them), so that point is still first before frame 3601, and
  the first message of frame 3601 is its note-off, \<open>[128, 48, 0]\<close>.
\<close>

theorem note_off_note_differs:
  "length (points (run_with_output 3600)) = 3900 \<and>
   hd (sent (run_with_output 1)) = [144, 72, 100] \<and>
   sent (run_with_output 3601) ! length (sent (run_with_output 3600)) = [128, 48, 0]"
proof -
  let ?s0 = "sketch_midi rnd1 1080 1350"
  note s0 = sketch_midi_rnd1_first
  have c1: "length (points (run_with_output 3600)) = 3900"
    using run_with_output_grows[of 3600] by simp
  have "mapRange 1080 0 1080 NOTE_MIN NOTE_MAX = 72"
    "mapRange 1350 0 1350 VELOCITY_MIN VELOCITY_MAX = 100"
    by (simp_all add: mapRange_def NOTE_MIN_def NOTE_MAX_def VELOCITY_MIN_def VELOCITY_MAX_def)
  then have on: "note_on True 1080 1350 (clock 0) first_point1 = [[144, 72, 100]]"
    by (simp add: note_on_def Let_def first_point1_eq update_midi_def wrap_def Vector_def)
  obtain later where "sent (render_midi rnd1 (midi_on 0) 1080 1350 (clock 0) ?s0) =
      sent ?s0 @ note_on (midi_on 0) 1080 1350 (clock 0) first_point1 @
      note_off (midi_on 0) 1080 1350 (clock 0) first_point1 @ later"
    using render_midi_first_notes[OF s0] by blast
  then have c2: "hd (sent (run_with_output 1)) = [144, 72, 100]"
    unfolding run_with_output_def using on by (simp add: midi_on_def)
  have ne: "\<forall>i<3600. \<not> expired_midi (midi_on i) (drift_midi 1080 1350 clock (Suc i) first_point1)"
    by (simp add: expired_midi_iff)
  obtain rest where r: "points (run_with_output 3600) = drift_midi 1080 1350 clock 3600 first_point1 # rest"
    using frames_midi_first[OF s0 ne, of rnd1] unfolding run_with_output_def by blast
  have nz: "age (drift_midi 1080 1350 clock 3600 first_point1) \<noteq> 0" by simp
  have ex: "expired_midi (midi_on 3600)
      (aged_midi (drift_midi 1080 1350 clock 3600 first_point1) 1080 1350 (clock 3600))"
    by (simp add: expired_midi_iff midi_on_def)
  have step: "run_with_output 3601 =
      render_midi rnd1 (midi_on 3600) 1080 1350 (clock 3600) (run_with_output 3600)"
  proof -
    have "(3601::nat) = Suc 3600" by simp
    then show ?thesis unfolding run_with_output_def by (simp only: frames_midi.simps)
  qed
  have "(3600::nat) \<le> 5000" by simp
  from drift_first_point1[OF this, of clock, unfolded drift_midi.simps]
  have "coord_x (pos (aged_midi (drift_midi 1080 1350 clock 3600 first_point1)
       1080 1350 (clock 3600))) = 184365 / 512"
    by (simp add: Vector_def)
  moreover have "mapRange (184365 / 512) 0 1080 NOTE_MIN NOTE_MAX = 48"
    by (simp add: mapRange_def NOTE_MIN_def NOTE_MAX_def round_def)
  ultimately have n: "mapRange (coord_x (pos (aged_midi (drift_midi 1080 1350 clock 3600 first_point1)
       1080 1350 (clock 3600)))) 0 1080 NOTE_MIN NOTE_MAX = 48"
    by (simp only:)
  obtain later' where "sent (run_with_output 3601) = sent (run_with_output 3600) @ [[128, 48, 0]] @ later'"
    using last_frame_notes[OF r nz ex, of rnd1] unfolding step n by blast
  then have c3: "sent (run_with_output 3601) ! length (sent (run_with_output 3600)) = [128, 48, 0]"
    by simp
  show ?thesis using c1 c2 c3 by (intro conjI)
qed

text \<open>
  C4, amended. In the MIDI variant with an output in every frame, a point of age 0 and
  lifespan 60 that stands first in the field is still first after \<open>n < 3600\<close> frames, with the
  age \<open>n / 60\<close> (so 1 after the 60th frame). And in a frame in which the first point of the
  field, of lifespan 60, reaches the age 60 or more, that point is the first the loop visits,
  the call on it leaves the array without it, and the note-off \<open>[128, note, 0]\<close> for its
  position in that frame is the first message of the frame.
\<close>

theorem removed_when_due:
  assumes "points s = p # rest" "age p = 0" "lifespan p = 60" "\<forall>i. midiOutput i"
    and "points u = q # others" "lifespan q = 60" "0 < age q" "60 \<le> age q + 1 / fps"
  shows "(\<forall>n<3600. \<exists>rest'.
            points (frames_midi rnd midiOutput width height time n s)
              = drift_midi width height time n p # rest' \<and>
            age (drift_midi width height time n p) = real n / 60 \<and>
            lifespan (drift_midi width height time n p) = 60) \<and>
         (\<exists>rest' later.
            points (spawn_and_connect_midi rnd width height t u) = q # rest' \<and>
            points (callback_midi True width height t q 0
                      (spawn_and_connect_midi rnd width height t u)) = rest' \<and>
            sent (render_midi rnd True width height t u) =
              sent u @
              [[128, mapRange (coord_x (pos (update_midi q width height t))) 0 width NOTE_MIN NOTE_MAX, 0]] @
              later)"
proof -
  have head: "\<exists>rest'. points (frames_midi rnd midiOutput width height time n s)
              = drift_midi width height time n p # rest' \<and>
            age (drift_midi width height time n p) = real n / 60 \<and>
            lifespan (drift_midi width height time n p) = 60" if "n < 3600" for n
  proof -
    have "\<forall>i<n. \<not> expired_midi (midiOutput i) (drift_midi width height time (Suc i) p)"
      using that assms(2,3) by (simp add: expired_midi_iff)
    from frames_midi_first[OF assms(1) this, of rnd]
    show ?thesis using assms(2,3) by simp
  qed
  have ex: "expired_midi True (aged_midi q width height t)"
    using assms(6,8) by (simp add: expired_midi_iff fps_def)
  have nz: "age q \<noteq> 0" using assms(7) by simp
  obtain rest' where rem: "points (spawn_and_connect_midi rnd width height t u) = q # rest'"
    "points (callback_midi True width height t q 0
       (spawn_and_connect_midi rnd width height t u)) = rest'"
    using last_frame_removal[OF assms(5) ex, of rnd] by blast
  obtain later where snt: "sent (render_midi rnd True width height t u) = sent u @
      [[128, mapRange (coord_x (pos (update_midi q width height t))) 0 width NOTE_MIN NOTE_MAX, 0]] @ later"
    using last_frame_notes[OF assms(5) nz ex, of rnd] unfolding aged_midi_pos by blast
  have first: "\<forall>n<3600. \<exists>rest'.
            points (frames_midi rnd midiOutput width height time n s)
              = drift_midi width height time n p # rest' \<and>
            age (drift_midi width height time n p) = real n / 60 \<and>
            lifespan (drift_midi width height time n p) = 60"
    using head by blast
  have second: "\<exists>rest' later.
            points (spawn_and_connect_midi rnd width height t u) = q # rest' \<and>
            points (callback_midi True width height t q 0
                      (spawn_and_connect_midi rnd width height t u)) = rest' \<and>
            sent (render_midi rnd True width height t u) =
              sent u @
              [[128, mapRange (coord_x (pos (update_midi q width height t))) 0 width NOTE_MIN NOTE_MAX, 0]] @
              later"
    using rem snt by blast
  show ?thesis using first second by (rule conjI)
qed

theorem removed_when_due_witness:
  "points lone_point_field = first_point # [] \<and> age first_point = 0 \<and>
   lifespan first_point = 60 \<and> (\<forall>i. midi_on i) \<and>
   points due_field_midi = due_point_midi # [young_point_midi] \<and>
   lifespan due_point_midi = 60 \<and> 0 < age due_point_midi \<and>
   60 \<le> age due_point_midi + 1 / fps \<and>
   (\<exists>rest'. points (frames_midi rnd0 midi_on 1080 1350 clock 60 lone_point_field)
              = drift_midi 1080 1350 clock 60 first_point # rest') \<and>
   age (drift_midi 1080 1350 clock 60 first_point) = 1 \<and>
   (\<exists>later. sent (render_midi rnd0 True 1080 1350 0 due_field_midi) = [[128, 48, 0]] @ later)"
proof -
  have h1: "points lone_point_field = first_point # []" by (simp add: lone_point_field_def)
  have h2: "age first_point = 0" and h3: "lifespan first_point = 60" by simp_all
  have h4: "\<forall>i. midi_on i" by (simp add: midi_on_def)
  have h5: "points due_field_midi = due_point_midi # [young_point_midi]"
    by (simp add: due_field_midi_def)
  have h6: "lifespan due_point_midi = 60" and h7: "0 < age due_point_midi"
    and h8: "60 \<le> age due_point_midi + 1 / fps"
    by (simp_all add: due_point_midi_def fps_def)
  note t = removed_when_due[OF h1 h2 h3 h4 h5 h6 h7 h8, of rnd0 1080 1350 clock 0]
  have u: "update_midi due_point_midi 1080 1350 0 = due_point_midi"
    by (simp add: update_midi_def wrap_def Let_def due_point_midi_def Vector_def)
  have x: "coord_x (pos due_point_midi) = 360" by (simp add: due_point_midi_def Vector_def)
  have n: "mapRange 360 0 1080 NOTE_MIN NOTE_MAX = 48"
    by (simp add: mapRange_def NOTE_MIN_def NOTE_MAX_def)
  have e: "sent due_field_midi = []" by (simp add: due_field_midi_def)
  have c1: "\<exists>rest'. points (frames_midi rnd0 midi_on 1080 1350 clock 60 lone_point_field)
              = drift_midi 1080 1350 clock 60 first_point # rest'"
    using t by simp
  have c2: "age (drift_midi 1080 1350 clock 60 first_point) = 1" by simp
  have c3: "\<exists>later. sent (render_midi rnd0 True 1080 1350 0 due_field_midi) = [[128, 48, 0]] @ later"
    using t unfolding u x n e by auto
  show ?thesis using h1 h2 h3 h4 h5 h6 h7 h8 c1 c2 c3 by (intro conjI)
qed

end
